theory Spec2Isabelle
  imports Main "HOL-Library.Sublist" "HOL-Library.Multiset"
begin

section \<open>Python string primitives used by the scraper\<close>

text \<open>
  Strings are lists of 8-bit characters. The archive's paths and labels are ASCII, so
  \<open>str.isdigit\<close> is membership in the ten decimal digits.
\<close>

definition isdigit :: "char \<Rightarrow> bool" where
  "isdigit c = (c \<in> set ''0123456789'')"

definition isspace :: "char \<Rightarrow> bool" where
  "isspace c = (c \<in> set [CHR '' '', CHR 0x09, CHR 0x0A, CHR 0x0B, CHR 0x0C, CHR 0x0D])"

text \<open>\<open>s.startswith(p)\<close>, \<open>s.endswith(p)\<close> and \<open>sub in s\<close>.\<close>

definition startswith :: "string \<Rightarrow> string \<Rightarrow> bool" where
  "startswith s p = prefix p s"

definition endswith :: "string \<Rightarrow> string \<Rightarrow> bool" where
  "endswith s p = prefix (rev p) (rev s)"

fun contains :: "string \<Rightarrow> string \<Rightarrow> bool" where
  "contains [] sub = (sub = [])"
| "contains (c # cs) sub = (prefix sub (c # cs) \<or> contains cs sub)"

text \<open>\<open>s.split(sep)\<close> for a one-character separator: never returns an empty list.\<close>

fun split :: "string \<Rightarrow> char \<Rightarrow> string list" where
  "split [] sep = [[]]"
| "split (c # cs) sep =
     (if c = sep then [] # split cs sep
      else (case split cs sep of [] \<Rightarrow> [[c]] | w # ws \<Rightarrow> (c # w) # ws))"

text \<open>\<open>xs[i]\<close> for a non-negative index: IndexError (here \<open>None\<close>) out of range.\<close>

definition index :: "'a list \<Rightarrow> nat \<Rightarrow> 'a option" where
  "index xs i = (if i < length xs then Some (xs ! i) else None)"

text \<open>\<open>s.rstrip(chars)\<close>, and the whitespace \<open>int\<close> skips at both ends of its argument.\<close>

definition rstrip :: "string \<Rightarrow> string \<Rightarrow> string" where
  "rstrip s chars = rev (dropWhile (\<lambda>c. c \<in> set chars) (rev s))"

definition strip :: "string \<Rightarrow> string" where
  "strip s = rev (dropWhile isspace (rev (dropWhile isspace s)))"

text \<open>\<open>s.replace(old, new)\<close> for a non-empty \<open>old\<close>: left to right, non-overlapping.\<close>

function replace :: "string \<Rightarrow> string \<Rightarrow> string \<Rightarrow> string" where
  "replace [] old new = []"
| "replace (c # cs) old new =
     (if old \<noteq> [] \<and> prefix old (c # cs)
      then new @ replace (drop (length old) (c # cs)) old new
      else c # replace cs old new)"
  by pat_completeness auto
termination
  by (relation "measure (\<lambda>(s, old, new). length s)") (auto simp: neq_Nil_conv)

text \<open>
  \<open>int(s)\<close> on a string: surrounding whitespace (space, TAB, LF, VT, FF, CR) is
  skipped, one sign is allowed, and the rest must be decimal digits, where single
  underscores may separate digit groups. Anything else raises ValueError (here \<open>None\<close>).
\<close>

definition digit_value :: "char \<Rightarrow> int" where
  "digit_value c = int (of_char c) - 48"

definition digits_value :: "string \<Rightarrow> int" where
  "digits_value ds = foldl (\<lambda>acc c. 10 * acc + digit_value c) 0 ds"

definition int_unsigned :: "string \<Rightarrow> int option" where
  "int_unsigned body =
     (let groups = split body (CHR ''_'') in
      if list_all (\<lambda>g. g \<noteq> [] \<and> list_all isdigit g) groups
      then Some (digits_value (concat groups)) else None)"

definition py_int :: "string \<Rightarrow> int option" where
  "py_int s =
     (case strip s of
        [] \<Rightarrow> None
      | c # cs \<Rightarrow>
          if c = CHR ''-'' then map_option uminus (int_unsigned cs)
          else if c = CHR ''+'' then int_unsigned cs
          else int_unsigned (c # cs))"

section \<open>Data model\<close>

text \<open>The exceptions the walk can raise.\<close>

datatype error =
    ConnectionFault
  | ValueError
  | IndexError
  | KeyError
  | TypeError
  | AttributeError

text \<open>What \<open>json.loads\<close> returns (numbers restricted to integers).\<close>

datatype json =
    JNull
  | JBool bool
  | JNum int
  | JStr string
  | JArr "json list"
  | JObj "(string \<times> json) list"

text \<open>An anchor element as pyquery hands it over: \<open>href\<close> and text may be missing.\<close>

record anchor =
  href :: "string option"
  anchor_text :: "string option"

text \<open>The dicts built by \<open>get_links\<close>: keys \<open>path\<close> and \<open>text\<close>.\<close>

record link =
  link_path :: string
  link_text :: string

text \<open>A response of the HTTP session.\<close>

datatype response = Response (status_code: int) (content: string)

text \<open>
  The keyword arguments of \<open>insert_build\<close>, one row of crashstats_productversion.
  Channel, release version and build id are the JSON values the descriptor holds.
\<close>

record params =
  product_name :: string
  release_channel :: json
  major_version :: int
  release_version :: json
  version_string :: string
  build_id :: json
  archive_url :: string

text \<open>The dict \<open>data\<close> of \<open>scrape_candidates\<close> before its \<open>version_string\<close> is set.\<close>

record build_data =
  bd_product_name :: string
  bd_release_channel :: json
  bd_major_version :: int
  bd_release_version :: json
  bd_build_id :: json
  bd_archive_url :: string

text \<open>Log records, kept structurally.\<close>

datatype log_entry =
    LogInserting params
  | LogDownloading string
  | LogBadStatus string int
  | LogFailedToInsert
  | LogSkipping int
  | LogNoJsonFiles string
  | LogInserted nat

text \<open>
  The configuration and the outside world of one run: the options \<open>base_url\<close> and
  \<open>verbose\<close>; the library functions \<open>urljoin\<close>, \<open>session.get\<close> (\<open>None\<close> when the
  session raises after its retries), pyquery's anchors of a page in document order and
  \<open>json.loads\<close> (\<open>None\<close> when it raises); and the store: the columns of its uniqueness
  constraint (\<open>unique_key\<close>) and what everything else in the store says to a row
  (\<open>store_check\<close>): \<open>Inserted\<close> when nothing objects, \<open>IntegrityError\<close> for an integrity
  violation other than uniqueness (not-null, check, foreign key), \<open>OtherDbError\<close> for
  any other psycopg2 error.
\<close>

datatype db_outcome = Inserted | IntegrityError | OtherDbError

record 'k env =
  base_url :: string
  verbose :: bool
  urljoin :: "string \<Rightarrow> string \<Rightarrow> string"
  session_get :: "string \<Rightarrow> response option"
  pq_anchors :: "string \<Rightarrow> anchor list"
  json_loads :: "string \<Rightarrow> json option"
  unique_key :: "params \<Rightarrow> 'k"
  store_check :: "params \<Rightarrow> db_outcome"

text \<open>
  The mutable state: the table, the counter \<open>self.successful_inserts\<close>, the log, the
  requests sent to the archive so far and the INSERT statements sent to the store so far.
\<close>

record state =
  catalog :: "params list"
  successful_inserts :: nat
  logged :: "log_entry list"
  requested :: "string list"
  executed :: "params list"

section \<open>Statements that may raise\<close>

text \<open>
  A statement takes the state and returns its result or the exception raised, together
  with the state reached: what was inserted, logged and requested before an exception
  stays.
\<close>

type_synonym 'a prog = "state \<Rightarrow> (error + 'a) \<times> state"

definition ret :: "'a \<Rightarrow> 'a prog" where
  "ret x = (\<lambda>st. (Inr x, st))"

definition raise :: "error \<Rightarrow> 'a prog" where
  "raise e = (\<lambda>st. (Inl e, st))"

definition bind :: "'a prog \<Rightarrow> ('a \<Rightarrow> 'b prog) \<Rightarrow> 'b prog" where
  "bind m f = (\<lambda>st. case m st of (Inl e, st') \<Rightarrow> (Inl e, st') | (Inr x, st') \<Rightarrow> f x st')"

text \<open>\<open>for x in xs: body(x)\<close>.\<close>

fun foreach :: "'a list \<Rightarrow> ('a \<Rightarrow> unit prog) \<Rightarrow> unit prog" where
  "foreach [] body = ret ()"
| "foreach (x # xs) body = bind (body x) (\<lambda>_. foreach xs body)"

text \<open>A loop whose iterations each append some elements to one result list.\<close>

fun collect :: "'a list \<Rightarrow> ('a \<Rightarrow> 'b list prog) \<Rightarrow> 'b list prog" where
  "collect [] body = ret []"
| "collect (x # xs) body =
     bind (body x) (\<lambda>ys. bind (collect xs body) (\<lambda>zs. ret (ys @ zs)))"

definition log_msg :: "log_entry \<Rightarrow> unit prog" where
  "log_msg e = (\<lambda>st. (Inr (), st\<lparr>logged := logged st @ [e]\<rparr>))"

section \<open>The fetcher and the listing parser\<close>

text \<open>\<open>get_links\<close>: anchors with an href and a text, the text neither "." nor "..".\<close>

definition get_links :: "'k env \<Rightarrow> string \<Rightarrow> link list" where
  "get_links env page =
     concat (map (\<lambda>elem.
       case (href elem, anchor_text elem) of
         (Some h, Some t) \<Rightarrow>
           if h \<noteq> [] \<and> t \<noteq> [] \<and> t \<noteq> ''.'' \<and> t \<noteq> ''..''
           then [\<lparr>link_path = h, link_text = t\<rparr>] else []
       | _ \<Rightarrow> []) (pq_anchors env page))"

text \<open>\<open>download\<close>: the page for status 200, the empty string for any other status.\<close>

definition download :: "'k env \<Rightarrow> string \<Rightarrow> string prog" where
  "download env url_path =
     (let url = urljoin env (base_url env) url_path in
      bind (if verbose env then log_msg (LogDownloading url) else ret ()) (\<lambda>_.
      bind (\<lambda>st. (Inr (), st\<lparr>requested := requested st @ [url]\<rparr>)) (\<lambda>_.
      case session_get env url of
        None \<Rightarrow> raise ConnectionFault
      | Some resp \<Rightarrow>
          if status_code resp \<noteq> 200
          then bind (if verbose env then log_msg (LogBadStatus url (status_code resp))
                     else ret ()) (\<lambda>_. ret [])
          else ret (content resp))))"

section \<open>The store\<close>

text \<open>
  \<open>get_max_major_version\<close>: \<open>SELECT max(major_version) ... WHERE product_name = %s\<close>;
  the maximum over no rows is NULL, which the method returns as \<open>None\<close>.
\<close>

definition get_max_major_version :: "string \<Rightarrow> int option prog" where
  "get_max_major_version name =
     (\<lambda>st. (Inr (case [major_version r. r \<leftarrow> catalog st, product_name r = name] of
                     [] \<Rightarrow> None
                   | m # ms \<Rightarrow> Some (fold max ms m)), st))"

text \<open>
  What \<open>cursor.execute\<close> of the INSERT does: it adds the row, or raises IntegrityError
  (a row with the same unique key is in the table, or another integrity constraint is
  violated), or raises another psycopg2 error.
\<close>

definition execute_insert :: "'k env \<Rightarrow> params list \<Rightarrow> params \<Rightarrow> db_outcome" where
  "execute_insert env table row =
     (case store_check env row of
        Inserted \<Rightarrow>
          if unique_key env row \<in> set (map (unique_key env) table) then IntegrityError
          else Inserted
      | IntegrityError \<Rightarrow> IntegrityError
      | OtherDbError \<Rightarrow> OtherDbError)"

text \<open>
  \<open>insert_build\<close>: both exceptions are caught, so the method always returns.
\<close>

definition insert_build :: "'k env \<Rightarrow> params \<Rightarrow> unit prog" where
  "insert_build env row =
     bind (if verbose env then log_msg (LogInserting row) else ret ()) (\<lambda>_.
     bind (\<lambda>st. (Inr (), st\<lparr>executed := executed st @ [row]\<rparr>)) (\<lambda>_.
     (\<lambda>st. case execute_insert env (catalog st) row of
        Inserted \<Rightarrow>
          (Inr (), st\<lparr>catalog := catalog st @ [row],
                      successful_inserts := successful_inserts st + 1\<rparr>)
      | IntegrityError \<Rightarrow> (Inr (), st)
      | OtherDbError \<Rightarrow> log_msg LogFailedToInsert st)))"

section \<open>Finding the build info files of a build directory\<close>

definition NON_PLATFORM_SUBSTRINGS :: "string list" where
  "NON_PLATFORM_SUBSTRINGS =
     [''beetmover'', ''contrib'', ''funnelcake'', ''jsshell'', ''logs'', ''mar-tools'',
      ''partner-repacks'', ''source'', ''update'']"

text \<open>
  The choice among the links of one en-US listing: the JSON links that are neither
  mozinfo nor test_packages; of them the first buildhub.json, else the first.
\<close>

definition select_json_link :: "link list \<Rightarrow> string list" where
  "select_json_link links =
     (let json_links =
            [link_path l. l \<leftarrow> links,
               endswith (link_path l) ''.json'' \<and>
               \<not> contains (link_path l) ''mozinfo'' \<and>
               \<not> contains (link_path l) ''test_packages''];
          buildhub_links = [l \<leftarrow> json_links. endswith l ''buildhub.json'']
      in case buildhub_links of
           b # _ \<Rightarrow> [b]
         | [] \<Rightarrow> (case json_links of j # _ \<Rightarrow> [j] | [] \<Rightarrow> []))"

text \<open>The body of the loop over \<open>directory_links\<close>: what it appends to \<open>all_json_links\<close>.\<close>

definition platform_json_links :: "'k env \<Rightarrow> string \<Rightarrow> string list prog" where
  "platform_json_links env directory_link =
     (if list_ex (\<lambda>bad_dir. contains directory_link bad_dir) NON_PLATFORM_SUBSTRINGS
      then ret []
      else bind (download env (directory_link @ ''en-US/'')) (\<lambda>locale_contents.
             if locale_contents = [] then ret []
             else ret (select_json_link (get_links env locale_contents))))"

definition get_json_links :: "'k env \<Rightarrow> string \<Rightarrow> string list prog" where
  "get_json_links env path =
     bind (download env path) (\<lambda>build_contents.
     let directory_links =
           [link_path l. l \<leftarrow> get_links env build_contents, endswith (link_text l) ''/'']
     in collect directory_links (platform_json_links env))"

section \<open>Reading a build info file\<close>

text \<open>\<open>d[key]\<close> on a parsed JSON value; the pairs of an object are the items of the dict.\<close>

definition subscript :: "json \<Rightarrow> string \<Rightarrow> error + json" where
  "subscript d k =
     (case d of
        JObj items \<Rightarrow> (case map_of items k of None \<Rightarrow> Inl KeyError | Some v \<Rightarrow> Inr v)
      | _ \<Rightarrow> Inl TypeError)"

definition bind_sum :: "error + 'a \<Rightarrow> ('a \<Rightarrow> error + 'b) \<Rightarrow> error + 'b" where
  "bind_sum m f = (case m of Inl e \<Rightarrow> Inl e | Inr x \<Rightarrow> f x)"

text \<open>
  \<open>int(s.split('.')[0])\<close>, the major version of a label or of a version field.
  (\<open>split\<close> never returns the empty list.)
\<close>

definition major_of :: "string \<Rightarrow> int option" where
  "major_of s = py_int (case split s (CHR ''.'') of [] \<Rightarrow> [] | w # _ \<Rightarrow> w)"

text \<open>The same on a JSON value: only a string has \<open>split\<close>.\<close>

definition major_of_json :: "json \<Rightarrow> error + int" where
  "major_of_json v =
     (case v of
        JStr s \<Rightarrow> (case major_of s of None \<Rightarrow> Inl ValueError | Some m \<Rightarrow> Inr m)
      | _ \<Rightarrow> Inl AttributeError)"

text \<open>The dict \<open>data\<close> for either file format, its entries evaluated in the source's order.\<close>

definition read_build_data :: "'k env \<Rightarrow> string \<Rightarrow> string \<Rightarrow> json \<Rightarrow> error + build_data" where
  "read_build_data env name json_link data =
     (if contains json_link ''buildhub'' then
        bind_sum (subscript data ''target'') (\<lambda>target.
        bind_sum (subscript target ''channel'') (\<lambda>channel.
        bind_sum (subscript target ''version'') (\<lambda>version.
        bind_sum (major_of_json version) (\<lambda>major.
        bind_sum (subscript data ''build'') (\<lambda>build.
        bind_sum (subscript build ''id'') (\<lambda>bid.
        Inr \<lparr>bd_product_name = name, bd_release_channel = channel,
             bd_major_version = major, bd_release_version = version,
             bd_build_id = bid,
             bd_archive_url = urljoin env (base_url env) json_link\<rparr>))))))
      else
        bind_sum (subscript data ''moz_update_channel'') (\<lambda>channel.
        bind_sum (subscript data ''moz_app_version'') (\<lambda>version.
        bind_sum (major_of_json version) (\<lambda>major.
        bind_sum (subscript data ''buildid'') (\<lambda>bid.
        Inr \<lparr>bd_product_name = name, bd_release_channel = channel,
             bd_major_version = major, bd_release_version = version,
             bd_build_id = bid,
             bd_archive_url = urljoin env (base_url env) json_link\<rparr>)))))"

section \<open>Writing the rows of one build\<close>

text \<open>\<open>data\<close> once \<open>data['version_string']\<close> is assigned.\<close>

definition with_version_string :: "build_data \<Rightarrow> string \<Rightarrow> params" where
  "with_version_string data v =
     \<lparr>product_name = bd_product_name data, release_channel = bd_release_channel data,
      major_version = bd_major_version data, release_version = bd_release_version data,
      version_string = v, build_id = bd_build_id data,
      archive_url = bd_archive_url data\<rparr>"

text \<open>The four branches on \<open>final_build\<close> and the channel, with the dict updated in place.\<close>

definition insert_rows :: "'k env \<Rightarrow> build_data \<Rightarrow> string \<Rightarrow> string \<Rightarrow> bool \<Rightarrow> unit prog" where
  "insert_rows env data version_root rc_version_string final_build =
     (if final_build then
        if bd_release_channel data = JStr ''release'' then
          (let data1 = (with_version_string (data\<lparr>bd_release_channel := JStr ''beta''\<rparr>)
                          rc_version_string) in
           bind (insert_build env data1) (\<lambda>_.
           let data2 = data1\<lparr>version_string := version_root,
                             release_channel := JStr ''release''\<rparr> in
           insert_build env data2))
        else
          (let data1 = with_version_string data version_root in
           bind (insert_build env data1) (\<lambda>_.
           let data2 = data1\<lparr>version_string := rc_version_string\<rparr> in
           insert_build env data2))
      else
        if bd_release_channel data = JStr ''release'' then
          insert_build env
            ((with_version_string data rc_version_string)\<lparr>release_channel := JStr ''beta''\<rparr>)
        else
          insert_build env (with_version_string data rc_version_string))"

section \<open>The walk of one product\<close>

text \<open>
  \<open>key_for_build_link\<close>: the integer made of all the digits of the path; \<open>int('')\<close>
  raises when the path has none.
\<close>

definition key_for_build_link :: "link \<Rightarrow> int option" where
  "key_for_build_link l = py_int (filter isdigit (link_path l))"

text \<open>
  \<open>build_links.sort(key=key_for_build_link)\<close>: the keys are computed first, and the
  sort is stable.
\<close>

definition sort_build_links :: "link list \<Rightarrow> error + link list" where
  "sort_build_links build_links =
     (case those (map key_for_build_link build_links) of
        None \<Rightarrow> Inl ValueError
      | Some keys \<Rightarrow> Inr (map snd (sort_key fst (zip keys build_links))))"

text \<open>
  \<open>text[0].isdigit()\<close>; \<open>get_links\<close> returns no link with an empty text, so the index
  is in range.
\<close>

definition first_isdigit :: "string \<Rightarrow> bool" where
  "first_isdigit t = (case t of [] \<Rightarrow> False | c # _ \<Rightarrow> isdigit c)"

text \<open>The condition of the watermark filter for one link; \<open>int\<close> is evaluated first.\<close>

definition keep_version :: "int \<Rightarrow> link \<Rightarrow> error + bool" where
  "keep_version major_version_minus_4 l =
     (case major_of (link_text l) of
        None \<Rightarrow> Inl ValueError
      | Some m \<Rightarrow> Inr (m \<ge> major_version_minus_4 \<or> contains (link_text l) ''esr''))"

text \<open>A list comprehension whose condition may raise.\<close>

fun filter_raising :: "('a \<Rightarrow> error + bool) \<Rightarrow> 'a list \<Rightarrow> error + 'a list" where
  "filter_raising p [] = Inr []"
| "filter_raising p (x # xs) =
     bind_sum (p x) (\<lambda>b. bind_sum (filter_raising p xs) (\<lambda>ys.
       Inr (if b then x # ys else ys)))"

text \<open>\<open>if major_version:\<close> is false for \<open>None\<close> and for 0.\<close>

definition filter_versions :: "int option \<Rightarrow> link list \<Rightarrow> link list prog" where
  "filter_versions watermark version_links =
     (case watermark of
        None \<Rightarrow> ret version_links
      | Some mv \<Rightarrow>
          if mv = 0 then ret version_links
          else bind (log_msg (LogSkipping (mv - 4))) (\<lambda>_.
               case filter_raising (keep_version (mv - 4)) version_links of
                 Inl e \<Rightarrow> raise e
               | Inr kept \<Rightarrow> ret kept))"

text \<open>The body of the loop over \<open>json_links\<close>.\<close>

definition scrape_json_link ::
  "'k env \<Rightarrow> string \<Rightarrow> string \<Rightarrow> bool \<Rightarrow> nat \<Rightarrow> nat \<Rightarrow> link \<Rightarrow> string \<Rightarrow> unit prog" where
  "scrape_json_link env name version_root is_final_release n i build_link json_link =
     bind (download env json_link) (\<lambda>json_file.
     case json_loads env json_file of
       None \<Rightarrow> raise ValueError
     | Some parsed \<Rightarrow>
         (case read_build_data env name json_link parsed of
            Inl e \<Rightarrow> raise e
          | Inr data \<Rightarrow>
              let rc_version_string =
                    version_root @ ''rc'' @ butlast (drop 5 (link_text build_link));
                  final_build = (i + 1 = n \<and> is_final_release)
              in insert_rows env data version_root rc_version_string final_build))"

text \<open>The body of the loop over the enumerated \<open>build_links\<close>.\<close>

definition scrape_build ::
  "'k env \<Rightarrow> string \<Rightarrow> string \<Rightarrow> bool \<Rightarrow> nat \<Rightarrow> nat \<times> link \<Rightarrow> unit prog" where
  "scrape_build env name version_root is_final_release n ib =
     (case ib of (i, build_link) \<Rightarrow>
        bind (get_json_links env (link_path build_link)) (\<lambda>json_links.
        if json_links = [] then log_msg (LogNoJsonFiles (link_path build_link))
        else foreach json_links
               (scrape_json_link env name version_root is_final_release n i build_link)))"

text \<open>The body of the loop over \<open>version_links\<close>.\<close>

definition scrape_version :: "'k env \<Rightarrow> string \<Rightarrow> string list \<Rightarrow> link \<Rightarrow> unit prog" where
  "scrape_version env name final_releases l =
     bind (download env (link_path l)) (\<lambda>page.
     let build_links = [b \<leftarrow> get_links env page. startswith (link_text b) ''build''] in
     case index (split (link_path l) (CHR ''/'')) 4 of
       None \<Rightarrow> raise IndexError
     | Some segment \<Rightarrow>
         let version_root = replace segment ''-candidates'' [];
             is_final_release = (version_root \<in> set final_releases)
         in (case sort_build_links build_links of
               Inl e \<Rightarrow> raise e
             | Inr sorted_links \<Rightarrow>
                 foreach (enumerate 0 sorted_links)
                   (scrape_build env name version_root is_final_release
                      (length sorted_links))))"

text \<open>\<open>scrape_candidates\<close> after the watermark has been read.\<close>

definition walk_candidates :: "'k env \<Rightarrow> string \<Rightarrow> string \<Rightarrow> int option \<Rightarrow> unit prog" where
  "walk_candidates env name archive_directory watermark =
     (let url_path = ''/pub/'' @ archive_directory @ ''/candidates/'';
          release_path = ''/pub/'' @ archive_directory @ ''/releases/'' in
      bind (download env release_path) (\<lambda>release_path_content.
      let final_releases =
            [rstrip (link_text l) ''/''. l \<leftarrow> get_links env release_path_content,
               first_isdigit (link_text l)] in
      bind (download env url_path) (\<lambda>page.
      let version_links = [l \<leftarrow> get_links env page. first_isdigit (link_text l)] in
      bind (filter_versions watermark version_links) (\<lambda>kept.
      foreach kept (scrape_version env name final_releases)))))"

definition scrape_candidates :: "'k env \<Rightarrow> string \<Rightarrow> string \<Rightarrow> unit prog" where
  "scrape_candidates env name archive_directory =
     bind (get_max_major_version name) (walk_candidates env name archive_directory)"

section \<open>The run\<close>

definition run :: "'k env \<Rightarrow> unit prog" where
  "run env =
     bind (scrape_candidates env ''Firefox'' ''firefox'') (\<lambda>_.
     bind (scrape_candidates env ''DevEdition'' ''devedition'') (\<lambda>_.
     bind (scrape_candidates env ''Fennec'' ''mobile'') (\<lambda>_.
     (\<lambda>st. log_msg (LogInserted (successful_inserts st)) st))))"

section \<open>Descriptions used in the statements\<close>

text \<open>The result of \<open>download\<close> as a function of the path alone.\<close>

definition fetch :: "'k env \<Rightarrow> string \<Rightarrow> error + string" where
  "fetch env url_path =
     (case session_get env (urljoin env (base_url env) url_path) of
        None \<Rightarrow> Inl ConnectionFault
      | Some resp \<Rightarrow> Inr (if status_code resp = 200 then content resp else []))"

text \<open>The effect of one INSERT on the table and on the counter.\<close>

definition store_step :: "'k env \<Rightarrow> params list \<times> nat \<Rightarrow> params \<Rightarrow> params list \<times> nat" where
  "store_step env tab row =
     (case execute_insert env (fst tab) row of
        Inserted \<Rightarrow> (fst tab @ [row], snd tab + 1)
      | IntegrityError \<Rightarrow> tab
      | OtherDbError \<Rightarrow> tab)"

text \<open>
  A statement whose result, requests and INSERTs do not depend on the state it starts in:
  it returns \<open>r\<close>, requests \<open>paths\<close> and sends the INSERTs \<open>rows\<close>, and the table and
  the counter change as those INSERTs make them.
\<close>

definition yields ::
  "'k env \<Rightarrow> 'a prog \<Rightarrow> error + 'a \<Rightarrow> string list \<Rightarrow> params list \<Rightarrow> bool" where
  "yields env m r paths rows =
     (\<forall>st. fst (m st) = r \<and>
           requested (snd (m st)) =
             requested st @ map (urljoin env (base_url env)) paths \<and>
           executed (snd (m st)) = executed st @ rows \<and>
           (catalog (snd (m st)), successful_inserts (snd (m st))) =
             foldl (store_step env) (catalog st, successful_inserts st) rows)"

text \<open>The directory test, the JSON link test and the links of a listing that are directories.\<close>

definition non_platform :: "string \<Rightarrow> bool" where
  "non_platform d = list_ex (\<lambda>bad_dir. contains d bad_dir) NON_PLATFORM_SUBSTRINGS"

definition usable_json_link :: "link \<Rightarrow> bool" where
  "usable_json_link l =
     (endswith (link_path l) ''.json'' \<and> \<not> contains (link_path l) ''mozinfo'' \<and>
      \<not> contains (link_path l) ''test_packages'')"

definition directory_links :: "'k env \<Rightarrow> string \<Rightarrow> string list" where
  "directory_links env page =
     map link_path (filter (\<lambda>l. endswith (link_text l) ''/'') (get_links env page))"

text \<open>
  What one platform directory contributes to \<open>all_json_links\<close> and what is requested
  for it, when the session raises nowhere.
\<close>

definition platform_links :: "'k env \<Rightarrow> string \<Rightarrow> string list" where
  "platform_links env d =
     (if non_platform d then []
      else case fetch env (d @ ''en-US/'') of
             Inl e \<Rightarrow> []
           | Inr page \<Rightarrow> if page = [] then [] else select_json_link (get_links env page))"

definition platform_paths :: "string \<Rightarrow> string list" where
  "platform_paths d = (if non_platform d then [] else [d @ ''en-US/''])"

definition listing_page :: "'k env \<Rightarrow> string \<Rightarrow> string" where
  "listing_page env path = (case fetch env path of Inl e \<Rightarrow> [] | Inr page \<Rightarrow> page)"

text \<open>
  The integer written by the leading digits of a label, and the labels whose leading
  digits end at a dot or at the end of the label (as in "63.0b7-candidates/").
\<close>

definition leading_integer :: "string \<Rightarrow> int" where
  "leading_integer s = digits_value (takeWhile isdigit s)"

definition dotted_label :: "string \<Rightarrow> bool" where
  "dotted_label s =
     (takeWhile isdigit s \<noteq> [] \<and>
      (case dropWhile isdigit s of [] \<Rightarrow> True | c # _ \<Rightarrow> c = CHR ''.''))"

text \<open>The number written by the digits of a build link's path.\<close>

definition build_number :: "link \<Rightarrow> int" where
  "build_number l = digits_value (filter isdigit (link_path l))"

definition has_digit :: "link \<Rightarrow> bool" where
  "has_digit l = (filter isdigit (link_path l) \<noteq> [])"

text \<open>The watermark condition in the spec's words.\<close>

definition keep_label :: "int \<Rightarrow> link \<Rightarrow> bool" where
  "keep_label w l =
     (leading_integer (link_text l) \<ge> w - 4 \<or> contains (link_text l) ''esr'')"

text \<open>A statement that is \<open>yields\<close> for some result, requests and INSERTs.\<close>

definition stateless :: "'k env \<Rightarrow> 'a prog \<Rightarrow> bool" where
  "stateless env m = (\<exists>r paths rows. yields env m r paths rows)"

text \<open>
  The watermark read from a table, the result of the watermark filter, and the two
  lists \<open>scrape_candidates\<close> takes from the releases and the candidates listing.
\<close>

definition max_major :: "string \<Rightarrow> params list \<Rightarrow> int option" where
  "max_major name table =
     (case [major_version r. r \<leftarrow> table, product_name r = name] of
        [] \<Rightarrow> None
      | m # ms \<Rightarrow> Some (fold max ms m))"

definition kept_versions :: "int option \<Rightarrow> link list \<Rightarrow> error + link list" where
  "kept_versions watermark version_links =
     (case watermark of
        None \<Rightarrow> Inr version_links
      | Some mv \<Rightarrow>
          if mv = 0 then Inr version_links
          else filter_raising (keep_version (mv - 4)) version_links)"

definition release_names :: "'k env \<Rightarrow> string \<Rightarrow> string list" where
  "release_names env page =
     map (\<lambda>l. rstrip (link_text l) ''/'') (filter (\<lambda>l. first_isdigit (link_text l)) (get_links env page))"

definition candidate_links :: "'k env \<Rightarrow> string \<Rightarrow> link list" where
  "candidate_links env page = filter (\<lambda>l. first_isdigit (link_text l)) (get_links env page)"

section \<open>Example archives\<close>

definition empty_state :: state where
  "empty_state =
     \<lparr>catalog = [], successful_inserts = 0, logged = [], requested = [], executed = []\<rparr>"

text \<open>
  Modelled from the spec: the table's declaration is not part of the sources; the spec
  gives the tuple (product_name, release_channel, version_string) as unique.
\<close>

definition spec_unique_key :: "params \<Rightarrow> string \<times> json \<times> string" where
  "spec_unique_key row = (product_name row, release_channel row, version_string row)"

text \<open>
  An environment from a table of responses, a table of pages with their anchors and a
  table of pages with their JSON value. All paths of the examples are absolute, so
  \<open>urljoin\<close> puts them behind the host.
\<close>

definition example_env ::
  "(string \<Rightarrow> response option) \<Rightarrow> (string \<times> anchor list) list \<Rightarrow> (string \<times> json) list
     \<Rightarrow> (string \<times> json \<times> string) env" where
  "example_env get listings documents =
     \<lparr>base_url = ''https://archive.mozilla.org/pub/'',
      verbose = False,
      urljoin = (\<lambda>base p. ''https://archive.mozilla.org'' @ p),
      session_get = get,
      pq_anchors = (\<lambda>page. case map_of listings page of None \<Rightarrow> [] | Some as \<Rightarrow> as),
      json_loads = map_of documents,
      unique_key = spec_unique_key,
      store_check = (\<lambda>_. Inserted)\<rparr>"

definition env_204 :: "(string \<times> json \<times> string) env" where
  "env_204 = example_env (\<lambda>url. Some (Response 204 ''partial'')) [] []"

text \<open>
  A small archive: Firefox 63.0 is released and has one candidate build, whose mac
  directory has no en-US listing while linux-i686 and win32 each hold a buildhub.json.
\<close>

definition anchor_to :: "string \<Rightarrow> string \<Rightarrow> anchor" where
  "anchor_to h t = \<lparr>href = Some h, anchor_text = Some t\<rparr>"

definition build1 :: string where
  "build1 = ''/pub/firefox/candidates/63.0-candidates/build1/''"

definition site_listings :: "(string \<times> anchor list) list" where
  "site_listings =
     [(''releases page'',
         [anchor_to ''/pub/firefox/'' ''..'',
          anchor_to ''/pub/firefox/releases/63.0/'' ''63.0/'']),
      (''candidates page'',
         [anchor_to ''/pub/firefox/'' ''..'',
          anchor_to ''/pub/firefox/candidates/63.0-candidates/'' ''63.0-candidates/'']),
      (''63.0 page'', [anchor_to build1 ''build1/'']),
      (''build1 page'',
         [anchor_to (build1 @ ''mac/'') ''mac/'',
          anchor_to (build1 @ ''linux-i686/'') ''linux-i686/'',
          anchor_to (build1 @ ''win32/'') ''win32/'']),
      (''linux page'',
         [anchor_to (build1 @ ''linux-i686/en-US/firefox-63.0.json'') ''firefox-63.0.json'',
          anchor_to (build1 @ ''linux-i686/en-US/buildhub.json'') ''buildhub.json'']),
      (''win32 page'',
         [anchor_to (build1 @ ''win32/en-US/buildhub.json'') ''buildhub.json''])]"

definition descriptor :: "string \<Rightarrow> string \<Rightarrow> string \<Rightarrow> json" where
  "descriptor channel version bid =
     JObj [(''target'', JObj [(''channel'', JStr channel), (''version'', JStr version)]),
           (''build'', JObj [(''id'', JStr bid)])]"

definition site_documents :: "(string \<times> json) list" where
  "site_documents =
     [(''linux buildhub'', descriptor ''release'' ''63.0'' ''20181018182531''),
      (''win32 buildhub'', descriptor ''release'' ''63.0'' ''20181018182532'')]"

definition site_pages :: "(string \<times> string) list" where
  "site_pages =
     [(''/pub/firefox/releases/'', ''releases page''),
      (''/pub/firefox/candidates/'', ''candidates page''),
      (''/pub/firefox/candidates/63.0-candidates/'', ''63.0 page''),
      (build1, ''build1 page''),
      (build1 @ ''linux-i686/en-US/'', ''linux page''),
      (build1 @ ''win32/en-US/'', ''win32 page''),
      (build1 @ ''linux-i686/en-US/buildhub.json'', ''linux buildhub''),
      (build1 @ ''win32/en-US/buildhub.json'', ''win32 buildhub'')]"

definition site_get :: "string \<Rightarrow> response option" where
  "site_get url =
     (case map_of (map (\<lambda>(p, page). (''https://archive.mozilla.org'' @ p, page)) site_pages) url of
        None \<Rightarrow> Some (Response 404 ''Not Found'')
      | Some page \<Rightarrow> Some (Response 200 page))"

definition site_env :: "(string \<times> json \<times> string) env" where
  "site_env = example_env site_get site_listings site_documents"

text \<open>Further example data.\<close>

definition example_data :: "json \<Rightarrow> build_data" where
  "example_data channel =
     \<lparr>bd_product_name = ''Firefox'', bd_release_channel = channel, bd_major_version = 63,
      bd_release_version = JStr ''63.0'', bd_build_id = JStr ''20181018182531'',
      bd_archive_url = ''https://archive.mozilla.org/pub/firefox/candidates/63.0-candidates/build5/linux-i686/en-US/buildhub.json''\<rparr>"

definition labelled :: "string \<Rightarrow> link" where
  "labelled t = \<lparr>link_path = ''/pub/firefox/candidates/'' @ t, link_text = t\<rparr>"

definition build_dir :: "string \<Rightarrow> link" where
  "build_dir t = \<lparr>link_path = t, link_text = t\<rparr>"

text \<open>
  A store whose channel column is NOT NULL and which fails with another error on one
  version string.
\<close>

definition faulty_env :: "(string \<times> json \<times> string) env" where
  "faulty_env =
     env_204\<lparr>store_check :=
       (\<lambda>row. if release_channel row = JNull then IntegrityError
              else if version_string row = ''63.0rc5'' then OtherDbError
              else Inserted)\<rparr>"

text \<open>The example archive with the session raising at the Firefox candidates listing.\<close>

definition down_env :: "(string \<times> json \<times> string) env" where
  "down_env =
     site_env\<lparr>session_get :=
       (\<lambda>url. if url = ''https://archive.mozilla.org/pub/firefox/candidates/'' then None
              else site_get url)\<rparr>"

text \<open>The same with the session raising at the DevEdition releases listing.\<close>

definition down_env2 :: "(string \<times> json \<times> string) env" where
  "down_env2 =
     site_env\<lparr>session_get :=
       (\<lambda>url. if url = ''https://archive.mozilla.org/pub/devedition/releases/'' then None
              else site_get url)\<rparr>"

text \<open>
  An archive with three candidate versions, 70.0, 50.0 and 71.0 in listing order, whose
  50.0 build info file is not JSON.
\<close>

definition candidate_dir :: "string \<Rightarrow> string" where
  "candidate_dir v = ''/pub/firefox/candidates/'' @ v @ ''-candidates/''"

definition broken_listings :: "(string \<times> anchor list) list" where
  "broken_listings = [(''candidates page'',
           [anchor_to (candidate_dir ''70.0'') ''70.0-candidates/'',
            anchor_to (candidate_dir ''50.0'') ''50.0-candidates/'',
            anchor_to (candidate_dir ''71.0'') ''71.0-candidates/'']),
         (''70 page'', [anchor_to (candidate_dir ''70.0'' @ ''build1/'') ''build1/'']),
         (''50 page'', [anchor_to (candidate_dir ''50.0'' @ ''build1/'') ''build1/'']),
         (''71 page'', [anchor_to (candidate_dir ''71.0'' @ ''build1/'') ''build1/'']),
         (''70 b'', [anchor_to (candidate_dir ''70.0'' @ ''build1/linux/'') ''linux/'']),
         (''50 b'', [anchor_to (candidate_dir ''50.0'' @ ''build1/linux/'') ''linux/'']),
         (''71 b'', [anchor_to (candidate_dir ''71.0'' @ ''build1/linux/'') ''linux/'']),
         (''70 l'', [anchor_to (candidate_dir ''70.0'' @ ''build1/linux/en-US/buildhub.json'') ''buildhub.json'']),
         (''50 l'', [anchor_to (candidate_dir ''50.0'' @ ''build1/linux/en-US/buildhub.json'') ''buildhub.json'']),
         (''71 l'', [anchor_to (candidate_dir ''71.0'' @ ''build1/linux/en-US/buildhub.json'') ''buildhub.json''])]"

definition broken_pages :: "(string \<times> string) list" where
  "broken_pages = [(''/pub/firefox/candidates/'', ''candidates page''),
         (candidate_dir ''70.0'', ''70 page''), (candidate_dir ''50.0'', ''50 page''), (candidate_dir ''71.0'', ''71 page''),
         (candidate_dir ''70.0'' @ ''build1/'', ''70 b''), (candidate_dir ''50.0'' @ ''build1/'', ''50 b''),
         (candidate_dir ''71.0'' @ ''build1/'', ''71 b''),
         (candidate_dir ''70.0'' @ ''build1/linux/en-US/'', ''70 l''),
         (candidate_dir ''50.0'' @ ''build1/linux/en-US/'', ''50 l''),
         (candidate_dir ''71.0'' @ ''build1/linux/en-US/'', ''71 l''),
         (candidate_dir ''70.0'' @ ''build1/linux/en-US/buildhub.json'', ''70 d''),
         (candidate_dir ''50.0'' @ ''build1/linux/en-US/buildhub.json'', ''not json''),
         (candidate_dir ''71.0'' @ ''build1/linux/en-US/buildhub.json'', ''71 d'')]"

definition broken_env :: "(string \<times> json \<times> string) env" where
  "broken_env = example_env
     (\<lambda>url. case map_of (map (\<lambda>(p, page). (''https://archive.mozilla.org'' @ p, page)) broken_pages) url of
        None \<Rightarrow> Some (Response 404 ''Not Found'') | Some page \<Rightarrow> Some (Response 200 page))
     broken_listings [(''70 d'', descriptor ''beta'' ''70.0'' ''1''), (''71 d'', descriptor ''beta'' ''71.0'' ''2'')]"

section \<open>Further descriptions and examples\<close>

text \<open>The rows of the channel/final-build matrix, in the order they are sent.\<close>

definition matrix_rows :: "build_data \<Rightarrow> string \<Rightarrow> string \<Rightarrow> bool \<Rightarrow> params list" where
  "matrix_rows data version_root rc_version_string final_build =
     (if final_build then
        if bd_release_channel data = JStr ''release''
        then [(with_version_string data rc_version_string)\<lparr>release_channel := JStr ''beta''\<rparr>,
              with_version_string data version_root]
        else [with_version_string data version_root,
              with_version_string data rc_version_string]
      else
        if bd_release_channel data = JStr ''release''
        then [(with_version_string data rc_version_string)\<lparr>release_channel := JStr ''beta''\<rparr>]
        else [with_version_string data rc_version_string])"

text \<open>The links of a version listing that the walk takes for build directories.\<close>

definition build_links_of :: "'k env \<Rightarrow> string \<Rightarrow> link list" where
  "build_links_of env page =
     filter (\<lambda>b. startswith (link_text b) ''build'') (get_links env page)"

text \<open>
  A request the session does not answer (it raises), and a statement that a fault among
  its requests aborts: it then returns the connection fault, and the unanswered request
  is the last one it sent. \<open>walk_faults\<close>: some request of the walk of a product, started
  in the given state, is not answered.
\<close>

definition unanswered :: "'k env \<Rightarrow> string \<Rightarrow> bool" where
  "unanswered env url = (session_get env url = None)"

definition fault_aborts :: "'k env \<Rightarrow> 'a prog \<Rightarrow> bool" where
  "fault_aborts env m =
     (\<forall>st. \<exists>news. requested (snd (m st)) = requested st @ news \<and>
        (list_ex (unanswered env) news \<longrightarrow>
           fst (m st) = Inl ConnectionFault \<and> unanswered env (last news)))"

definition walk_faults :: "'k env \<Rightarrow> string \<Rightarrow> string \<Rightarrow> state \<Rightarrow> bool" where
  "walk_faults env name dir st =
     list_ex (unanswered env)
       (drop (length (requested st)) (requested (snd (scrape_candidates env name dir st))))"

text \<open>
  The example archive with the session raising inside the loops (at the en-US listing
  of win32) and at the candidates listing of Fennec.
\<close>

definition down_env3 :: "(string \<times> json \<times> string) env" where
  "down_env3 =
     site_env\<lparr>session_get :=
       (\<lambda>url. if url = ''https://archive.mozilla.org'' @ build1 @ ''win32/en-US/'' then None
              else site_get url)\<rparr>"

definition down_env4 :: "(string \<times> json \<times> string) env" where
  "down_env4 =
     site_env\<lparr>session_get :=
       (\<lambda>url. if url = ''https://archive.mozilla.org/pub/mobile/candidates/'' then None
              else site_get url)\<rparr>"

text \<open>
  An archive that answers only for the listing of 63.0-candidates, with the given
  anchors; and three build directories in the order of a lexicographic listing.
\<close>

definition version_page_env :: "anchor list \<Rightarrow> (string \<times> json \<times> string) env" where
  "version_page_env anchors =
     example_env
       (\<lambda>url. if url = ''https://archive.mozilla.org/pub/firefox/candidates/63.0-candidates/''
              then Some (Response 200 ''version page'')
              else Some (Response 404 ''Not Found''))
       [(''version page'', anchors)] []"

definition three_builds :: "anchor list" where
  "three_builds =
     [anchor_to ''/pub/firefox/candidates/63.0-candidates/build1/'' ''build1/'',
      anchor_to ''/pub/firefox/candidates/63.0-candidates/build10/'' ''build10/'',
      anchor_to ''/pub/firefox/candidates/63.0-candidates/build2/'' ''build2/'']"

text \<open>
  An archive whose candidates listing has the one entry "52esr-candidates/", and a table
  that holds a Firefox row of major version 63.
\<close>

definition esr_env :: "(string \<times> json \<times> string) env" where
  "esr_env =
     example_env
       (\<lambda>url. if url = ''https://archive.mozilla.org/pub/firefox/candidates/''
              then Some (Response 200 ''candidates page'')
              else Some (Response 404 ''Not Found''))
       [(''candidates page'',
           [anchor_to ''/pub/firefox/candidates/52esr-candidates/'' ''52esr-candidates/''])] []"

definition watermark_state :: state where
  "watermark_state =
     empty_state\<lparr>catalog := [with_version_string (example_data (JStr ''beta'')) ''63.0rc5'']\<rparr>"

section \<open>Laws of sequencing\<close>

lemma bind_ret [simp]: "bind (ret x) f = f x"
  by (simp add: bind_def ret_def)

lemma bind_raise [simp]: "bind (raise e) f = raise e"
  by (simp add: bind_def raise_def)

lemma yields_ret: "yields env (ret x) (Inr x) [] []"
  by (simp add: yields_def ret_def)

lemma yields_raise: "yields env (raise e) (Inl e) [] []"
  by (simp add: yields_def raise_def)

lemma yields_log_msg: "yields env (log_msg e) (Inr ()) [] []"
  by (simp add: yields_def log_msg_def)

lemma yields_download: "yields env (download env p) (fetch env p) [p] []"
  by (simp add: yields_def download_def fetch_def Let_def bind_def ret_def raise_def log_msg_def
      split: option.splits)

lemma yields_insert_build: "yields env (insert_build env row) (Inr ()) [] [row]"
  by (simp add: yields_def insert_build_def bind_def ret_def log_msg_def store_step_def
      split: db_outcome.splits)

lemma yields_bind:
  assumes "yields env m (Inr x) ps rows" and "yields env (f x) r ps' rows'"
  shows "yields env (bind m f) r (ps @ ps') (rows @ rows')"
  unfolding yields_def
proof (intro allI)
  fix st
  obtain st' where m: "m st = (Inr x, st')"
    using assms(1) by (cases "m st") (auto simp: yields_def dest: spec [of _ st])
  have a: "requested st' = requested st @ map (urljoin env (base_url env)) ps"
    "executed st' = executed st @ rows"
    "(catalog st', successful_inserts st') =
       foldl (store_step env) (catalog st, successful_inserts st) rows"
    using assms(1) m by (auto simp: yields_def dest: spec [of _ st])
  have b: "bind m f st = f x st'"
    using m by (simp add: bind_def)
  show "fst (bind m f st) = r \<and>
        requested (snd (bind m f st)) =
          requested st @ map (urljoin env (base_url env)) (ps @ ps') \<and>
        executed (snd (bind m f st)) = executed st @ rows @ rows' \<and>
        (catalog (snd (bind m f st)), successful_inserts (snd (bind m f st))) =
          foldl (store_step env) (catalog st, successful_inserts st) (rows @ rows')"
    using assms(2) a unfolding b yields_def by (simp del: foldl_append add: foldl_append)
qed

lemma yields_bind_raise:
  assumes "yields env m (Inl e) ps rows"
  shows "yields env (bind m f) (Inl e) ps rows"
  unfolding yields_def
proof (intro allI)
  fix st
  obtain st' where m: "m st = (Inl e, st')"
    using assms by (cases "m st") (auto simp: yields_def dest: spec [of _ st])
  have b: "bind m f st = (Inl e, st')"
    using m by (simp add: bind_def)
  show "fst (bind m f st) = Inl e \<and>
        requested (snd (bind m f st)) =
          requested st @ map (urljoin env (base_url env)) ps \<and>
        executed (snd (bind m f st)) = executed st @ rows \<and>
        (catalog (snd (bind m f st)), successful_inserts (snd (bind m f st))) =
          foldl (store_step env) (catalog st, successful_inserts st) rows"
    using assms m unfolding b yields_def by (auto dest: spec [of _ st])
qed

lemma yields_unique:
  assumes "yields env m r ps rows" and "yields env m r' ps' rows'"
  shows "r = r'" and "rows = rows'"
  using assms by (auto simp: yields_def dest!: spec [of _ empty_state])

section \<open>The fetcher\<close>

text \<open>
  C8 (amended). Whenever the session answers, \<open>download\<close> returns normally: the body
  for status 200 and the empty string for every other status, the other 2xx included.
\<close>

theorem download_status_200_only:
  "session_get env (urljoin env (base_url env) url_path) = Some resp \<Longrightarrow>
   fst (download env url_path st) =
     Inr (if status_code resp = 200 then content resp else [])"
  by (simp add: download_def Let_def bind_def ret_def log_msg_def)

theorem download_status_200_only_witness:
  "fst (download (example_env (\<lambda>url. Some (Response 200 ''page'')) [] []) ''/pub/'' empty_state)
     = Inr ''page''"
  using download_status_200_only
    [of "example_env (\<lambda>url. Some (Response 200 ''page'')) [] []" "''/pub/''"
        "Response 200 ''page''" empty_state]
  by (simp add: example_env_def)

text \<open>A response with status 204 and a body: the body is dropped.\<close>

theorem download_other_2xx_counterexample:
  "session_get env_204 (urljoin env_204 (base_url env_204) ''/pub/'')
     = Some (Response 204 ''partial'')
   \<and> fst (download env_204 ''/pub/'' empty_state) = Inr []"
  by (simp add: env_204_def example_env_def download_def Let_def bind_def ret_def log_msg_def)

lemma fst_download: "fst (download env p st) = fetch env p"
  using yields_download [of env p] by (simp add: yields_def)

text \<open>No link of \<open>get_links\<close> has an empty path or an empty text.\<close>

lemma get_links_nonempty:
  "l \<in> set (get_links env page) \<Longrightarrow> link_path l \<noteq> [] \<and> link_text l \<noteq> []"
  by (auto simp: get_links_def split: option.splits if_splits)

section \<open>The catalog writer\<close>

lemma insert_build_result: "fst (insert_build env row st) = Inr ()"
  by (simp add: insert_build_def bind_def ret_def log_msg_def split: db_outcome.splits)


lemma bind_insert_build:
  "bind (insert_build env row) f st = f () (snd (insert_build env row st))"
  using insert_build_result [of env row st]
  by (cases "insert_build env row st") (simp add: bind_def)



lemma insert_build_duplicate:
  "execute_insert env (catalog st) row = IntegrityError \<Longrightarrow>
   catalog (snd (insert_build env row st)) = catalog st \<and>
   successful_inserts (snd (insert_build env row st)) = successful_inserts st \<and>
   logged (snd (insert_build env row st)) =
     logged st @ (if verbose env then [LogInserting row] else [])"
  by (simp add: insert_build_def bind_def ret_def log_msg_def)

lemma insert_build_other_error:
  "execute_insert env (catalog st) row = OtherDbError \<Longrightarrow>
   catalog (snd (insert_build env row st)) = catalog st \<and>
   successful_inserts (snd (insert_build env row st)) = successful_inserts st \<and>
   logged (snd (insert_build env row st)) =
     logged st @ (if verbose env then [LogInserting row] else []) @ [LogFailedToInsert]"
  by (simp add: insert_build_def bind_def ret_def log_msg_def)

lemma insert_build_inserted:
  "execute_insert env (catalog st) row = Inserted \<Longrightarrow>
   catalog (snd (insert_build env row st)) = catalog st @ [row] \<and>
   successful_inserts (snd (insert_build env row st)) = successful_inserts st + 1"
  by (simp add: insert_build_def bind_def ret_def log_msg_def)

lemma insert_rows_result:
  "fst (insert_rows env data version_root rc_version_string final_build st) = Inr ()"
  by (simp add: insert_rows_def Let_def bind_insert_build insert_build_result)

lemma yields_insert_rows:
  "yields env (insert_rows env data version_root rc_version_string final_build) (Inr ()) []
     (matrix_rows data version_root rc_version_string final_build)"
proof -
  have two: "yields env (bind (insert_build env r1) (\<lambda>_. insert_build env r2)) (Inr ())
               ([] @ []) ([r1] @ [r2])" for r1 r2
    by (rule yields_bind [OF yields_insert_build]) (rule yields_insert_build)
  show ?thesis
    by (simp add: insert_rows_def matrix_rows_def Let_def with_version_string_def
          two [simplified] yields_insert_build)
qed

text \<open>
  C7. \<open>insert_build\<close> never raises. On an IntegrityError the table and the counter
  stay and nothing but the verbose INSERTING line is logged, whether the row's unique key
  is in the table or another integrity constraint of the store is violated; on any other
  error of the store the table and the counter stay and the failure is logged last.
  \<open>insert_rows\<close> sends the INSERT of every row of the matrix, in order, and returns
  normally whatever their outcomes.
\<close>

theorem insert_build_outcomes:
  "fst (insert_build env row st) = Inr () \<and>
   (execute_insert env (catalog st) row = IntegrityError \<longrightarrow>
      catalog (snd (insert_build env row st)) = catalog st \<and>
      successful_inserts (snd (insert_build env row st)) = successful_inserts st \<and>
      logged (snd (insert_build env row st)) =
        logged st @ (if verbose env then [LogInserting row] else [])) \<and>
   (execute_insert env (catalog st) row = OtherDbError \<longrightarrow>
      catalog (snd (insert_build env row st)) = catalog st \<and>
      successful_inserts (snd (insert_build env row st)) = successful_inserts st \<and>
      logged (snd (insert_build env row st)) =
        logged st @ (if verbose env then [LogInserting row] else []) @ [LogFailedToInsert]) \<and>
   (store_check env row = IntegrityError \<longrightarrow>
      execute_insert env (catalog st) row = IntegrityError) \<and>
   fst (insert_rows env data version_root rc_version_string final_build st) = Inr () \<and>
   executed (snd (insert_rows env data version_root rc_version_string final_build st)) =
     executed st @ matrix_rows data version_root rc_version_string final_build \<and>
   (catalog (snd (insert_rows env data version_root rc_version_string final_build st)),
    successful_inserts (snd (insert_rows env data version_root rc_version_string final_build st)))
     = foldl (store_step env) (catalog st, successful_inserts st)
         (matrix_rows data version_root rc_version_string final_build)"
proof -
  have "store_check env row = IntegrityError \<Longrightarrow>
        execute_insert env (catalog st) row = IntegrityError"
    by (simp add: execute_insert_def)
  then show ?thesis
    using insert_build_result [of env row st] insert_build_duplicate [of env st row]
      insert_build_other_error [of env st row]
      yields_insert_rows [of env data version_root rc_version_string final_build]
    unfolding yields_def by blast
qed

theorem insert_build_outcomes_witness:
  "unique_key faulty_env (with_version_string (example_data JNull) ''63.0rc5'')
     \<notin> set (map (unique_key faulty_env) (catalog empty_state)) \<and>
   execute_insert faulty_env (catalog empty_state)
     (with_version_string (example_data JNull) ''63.0rc5'') = IntegrityError \<and>
   insert_build faulty_env (with_version_string (example_data JNull) ''63.0rc5'') empty_state
     = (Inr (), empty_state\<lparr>executed := [with_version_string (example_data JNull) ''63.0rc5'']\<rparr>) \<and>
   logged (snd (insert_build faulty_env
       (with_version_string (example_data (JStr ''beta'')) ''63.0rc5'') empty_state))
     = [LogFailedToInsert] \<and>
   catalog (snd (insert_rows faulty_env (example_data (JStr ''release'')) ''63.0'' ''63.0rc5'' True
       empty_state)) = [with_version_string (example_data (JStr ''release'')) ''63.0''] \<and>
   successful_inserts (snd (insert_rows faulty_env (example_data (JStr ''release'')) ''63.0''
       ''63.0rc5'' True empty_state)) = 1"
proof -
  let ?null = "with_version_string (example_data JNull) ''63.0rc5''"
  let ?beta = "with_version_string (example_data (JStr ''beta'')) ''63.0rc5''"
  have k: "unique_key faulty_env ?null \<notin> set (map (unique_key faulty_env) (catalog empty_state))"
    by (simp add: empty_state_def)
  have a: "store_check faulty_env ?null = IntegrityError"
    by (simp add: faulty_env_def with_version_string_def example_data_def)
  have b: "execute_insert faulty_env (catalog empty_state) ?beta = OtherDbError"
    by (simp add: execute_insert_def faulty_env_def with_version_string_def example_data_def)
  have v: "\<not> verbose faulty_env" "logged empty_state = []" "catalog empty_state = []"
    "successful_inserts empty_state = 0" "executed empty_state = []"
    by (simp_all add: empty_state_def faulty_env_def env_204_def example_env_def)
  note n = insert_build_outcomes [of faulty_env ?null empty_state
      "example_data (JStr ''release'')" "''63.0''" "''63.0rc5''" True]
  have e: "execute_insert faulty_env (catalog empty_state) ?null = IntegrityError"
    using n a by blast
  have x: "executed (snd (insert_build faulty_env ?null empty_state)) = [?null]"
    "requested (snd (insert_build faulty_env ?null empty_state)) = requested empty_state"
    using yields_insert_build [of faulty_env ?null] v by (simp_all add: yields_def)
  have "insert_build faulty_env ?null empty_state = (Inr (), empty_state\<lparr>executed := [?null]\<rparr>)"
    using n e v x
    by (cases "insert_build faulty_env ?null empty_state") (simp add: empty_state_def)
  moreover have "logged (snd (insert_build faulty_env ?beta empty_state)) = [LogFailedToInsert]"
    using insert_build_outcomes [of faulty_env ?beta empty_state
      "example_data (JStr ''release'')" "''63.0''" "''63.0rc5''" True] b v by simp
  moreover have "foldl (store_step faulty_env) ([], 0)
       (matrix_rows (example_data (JStr ''release'')) ''63.0'' ''63.0rc5'' True)
     = ([with_version_string (example_data (JStr ''release'')) ''63.0''], 1)"
    by (simp add: matrix_rows_def store_step_def execute_insert_def faulty_env_def
          with_version_string_def example_data_def env_204_def example_env_def)
  ultimately show ?thesis
    using n k e v by simp
qed

section \<open>The build info links of a build directory\<close>

lemma comprehension_map_filter:
  "concat (map (\<lambda>x. if Q x then [f x] else []) xs) = map f (filter Q xs)"
  by (induction xs) auto

lemma select_json_link_find:
  "select_json_link links =
     (case find (\<lambda>l. usable_json_link l \<and> endswith (link_path l) ''buildhub.json'') links of
        Some l \<Rightarrow> [link_path l]
      | None \<Rightarrow> (case find usable_json_link links of Some l \<Rightarrow> [link_path l] | None \<Rightarrow> []))"
proof -
  have a: "(case filter P (map f (filter Q xs)) of [] \<Rightarrow> z | b # _ \<Rightarrow> g b) =
           (case find (\<lambda>l. Q l \<and> P (f l)) xs of None \<Rightarrow> z | Some l \<Rightarrow> g (f l))"
    for P :: "string \<Rightarrow> bool" and f :: "link \<Rightarrow> string" and Q xs and z :: "string list" and g
    by (induction xs) auto
  have b: "(case map f (filter Q xs) of [] \<Rightarrow> z | j # _ \<Rightarrow> g j) =
           (case find Q xs of None \<Rightarrow> z | Some l \<Rightarrow> g (f l))"
    for f :: "link \<Rightarrow> string" and Q xs and z :: "string list" and g
    by (induction xs) auto
  note c = comprehension_map_filter
  show ?thesis
    unfolding select_json_link_def Let_def usable_json_link_def [symmetric] c a b
    by (simp add: usable_json_link_def)
qed

lemma select_json_link_length: "length (select_json_link links) \<le> 1"
  by (simp add: select_json_link_find split: option.splits)

lemma platform_json_links_length:
  "fst (platform_json_links env d st) = Inr ls \<Longrightarrow> length ls \<le> 1"
  using fst_download [of env "d @ ''en-US/''" st] select_json_link_length
  by (cases "download env (d @ ''en-US/'') st")
     (auto simp: platform_json_links_def bind_def ret_def split: if_splits sum.splits)

lemma collect_length:
  assumes "\<And>x st ls. fst (body x st) = Inr ls \<Longrightarrow> length ls \<le> 1"
  shows "fst (collect xs body st) = Inr ls \<Longrightarrow> length ls \<le> length xs"
proof (induction xs arbitrary: st ls)
  case Nil
  then show ?case by (simp add: ret_def)
next
  case (Cons x xs)
  obtain r st1 where b: "body x st = (r, st1)" by (cases "body x st")
  show ?case
  proof (cases r)
    case (Inl e)
    with Cons.prems b show ?thesis by (simp add: bind_def)
  next
    case (Inr ys)
    obtain r2 st2 where c: "collect xs body st1 = (r2, st2)" by (cases "collect xs body st1")
    show ?thesis
    proof (cases r2)
      case (Inl e)
      with Cons.prems b Inr c show ?thesis by (simp add: bind_def)
    next
      case r2: (Inr zs)
      have "length ys \<le> 1" using assms [of x st ys] b Inr by simp
      moreover have "length zs \<le> length xs" using Cons.IH [of st1 zs] c r2 by simp
      moreover have "ls = ys @ zs" using Cons.prems b Inr c r2 by (simp add: bind_def ret_def)
      ultimately show ?thesis by simp
    qed
  qed
qed

lemma get_json_links_length:
  assumes "fst (get_json_links env path st) = Inr ls" and "fetch env path = Inr page"
  shows "length ls \<le> length (directory_links env page)"
proof -
  obtain st1 where d: "download env path st = (Inr page, st1)"
    using fst_download [of env path st] assms(2) by (cases "download env path st") simp
  have "fst (collect (directory_links env page) (platform_json_links env) st1) = Inr ls"
    using assms(1) d
    by (simp add: get_json_links_def bind_def Let_def directory_links_def
          comprehension_map_filter)
  then show ?thesis
    using collect_length [of "platform_json_links env"] platform_json_links_length by blast
qed

lemma fetch_answers:
  assumes "\<forall>url. session_get env url \<noteq> None"
  obtains page where "fetch env p = Inr page"
proof -
  obtain resp where "session_get env (urljoin env (base_url env) p) = Some resp"
    using assms by fastforce
  then show ?thesis using that by (simp add: fetch_def)
qed

lemma yields_platform_json_links:
  assumes "\<forall>url. session_get env url \<noteq> None"
  shows "yields env (platform_json_links env d) (Inr (platform_links env d)) (platform_paths d) []"
proof (cases "non_platform d")
  case True
  then show ?thesis
    using yields_ret [of env "[]"]
    by (simp add: platform_json_links_def platform_links_def platform_paths_def non_platform_def)
next
  case False
  obtain page where f: "fetch env (d @ ''en-US/'') = Inr page"
    using fetch_answers [OF assms] by blast
  have "yields env
          (bind (download env (d @ ''en-US/''))
             (\<lambda>locale_contents. if locale_contents = [] then ret []
                else ret (select_json_link (get_links env locale_contents))))
          (Inr (if page = [] then [] else select_json_link (get_links env page)))
          ([d @ ''en-US/''] @ []) ([] @ [])"
    by (rule yields_bind [where x = page]) (use yields_download [of env "d @ ''en-US/''"] f
        in \<open>simp_all add: yields_ret\<close>)
  then show ?thesis
    using False f
    by (simp add: platform_json_links_def platform_links_def platform_paths_def non_platform_def)
qed

lemma yields_collect_platforms:
  assumes "\<forall>url. session_get env url \<noteq> None"
  shows "yields env (collect ds (platform_json_links env))
           (Inr (concat (map (platform_links env) ds))) (concat (map platform_paths ds)) []"
proof (induction ds)
  case Nil
  show ?case by (simp add: yields_ret)
next
  case (Cons d ds)
  have "yields env (bind (collect ds (platform_json_links env))
                      (\<lambda>zs. ret (platform_links env d @ zs)))
          (Inr (platform_links env d @ concat (map (platform_links env) ds)))
          (concat (map platform_paths ds) @ []) ([] @ [])"
    by (rule yields_bind [OF Cons.IH]) (rule yields_ret)
  then have "yields env
          (bind (platform_json_links env d)
             (\<lambda>ys. bind (collect ds (platform_json_links env)) (\<lambda>zs. ret (ys @ zs))))
          (Inr (platform_links env d @ concat (map (platform_links env) ds)))
          (platform_paths d @ concat (map platform_paths ds)) ([] @ [])"
    using yields_bind [OF yields_platform_json_links [OF assms, of d]] by simp
  then show ?case by simp
qed

text \<open>
  C1 (amended). When the session raises nowhere, \<open>get_json_links\<close> requests the en-US
  listing of every platform directory of the build and returns, in listing order, the
  link selected in each of them: it does not stop at the first platform with a link.
\<close>

theorem get_json_links_all_platforms:
  assumes "\<forall>url. session_get env url \<noteq> None"
  shows "fst (get_json_links env path st) =
           Inr (concat (map (platform_links env) (directory_links env (listing_page env path)))) \<and>
         requested (snd (get_json_links env path st)) =
           requested st @ map (urljoin env (base_url env))
             (path # concat (map platform_paths (directory_links env (listing_page env path))))"
proof -
  obtain page where f: "fetch env path = Inr page"
    using fetch_answers [OF assms] by blast
  have "yields env
          (bind (download env path)
             (\<lambda>build_contents. collect (directory_links env build_contents)
                                  (platform_json_links env)))
          (Inr (concat (map (platform_links env) (directory_links env page))))
          ([path] @ concat (map platform_paths (directory_links env page))) ([] @ [])"
    by (rule yields_bind [where x = page])
       (use yields_download [of env path] f yields_collect_platforms [OF assms]
         in \<open>simp_all\<close>)
  then show ?thesis
    using f
    by (simp add: yields_def get_json_links_def Let_def directory_links_def listing_page_def
          comprehension_map_filter)
qed

lemma site_get_answers: "\<forall>url. session_get site_env url \<noteq> None"
  by (simp add: site_env_def example_env_def site_get_def split: option.splits)

lemmas site_defs = site_env_def example_env_def site_get_def site_pages_def site_documents_def
  descriptor_def site_listings_def build1_def anchor_to_def empty_state_def

theorem get_json_links_all_platforms_witness:
  "fst (get_json_links site_env build1 empty_state) =
     Inr [build1 @ ''linux-i686/en-US/buildhub.json'', build1 @ ''win32/en-US/buildhub.json''] \<and>
   requested (snd (get_json_links site_env build1 empty_state)) =
     map (\<lambda>p. ''https://archive.mozilla.org'' @ p)
       [build1, build1 @ ''mac/en-US/'', build1 @ ''linux-i686/en-US/'', build1 @ ''win32/en-US/'']"
  using get_json_links_all_platforms [OF site_get_answers, of build1 empty_state]
  by (simp add: site_defs listing_page_def fetch_def directory_links_def get_links_def
        endswith_def platform_links_def platform_paths_def non_platform_def
        NON_PLATFORM_SUBSTRINGS_def select_json_link_def)

text \<open>
  In the example archive the one build has descriptors on linux-i686 and on win32: the
  walk reads both and sends the INSERTs of both.
\<close>

theorem descriptors_of_two_platforms_counterexample:
  "map archive_url (executed (snd (scrape_candidates site_env ''Firefox'' ''firefox'' empty_state)))
     = map (\<lambda>p. ''https://archive.mozilla.org'' @ p)
         [build1 @ ''linux-i686/en-US/buildhub.json'', build1 @ ''linux-i686/en-US/buildhub.json'',
          build1 @ ''win32/en-US/buildhub.json'', build1 @ ''win32/en-US/buildhub.json'']"
  by code_simp

text \<open>
  C10 (amended). The selection in one en-US listing has at most one link: the first usable JSON
  link (ending in ".json", with neither "mozinfo" nor "test_packages" in its path) that
  ends in "buildhub.json" when there is one, otherwise the first usable JSON link, and
  none when there is no usable JSON link. A platform directory with a non-empty en-US
  listing contributes exactly that selection, every platform directory contributes at
  most one link, and so the list for a build is no longer than its directory listing.
\<close>

theorem select_json_link_at_most_one:
  "length (select_json_link links) \<le> 1 \<and>
   select_json_link links =
     (case find (\<lambda>l. usable_json_link l \<and> endswith (link_path l) ''buildhub.json'') links of
        Some l \<Rightarrow> [link_path l]
      | None \<Rightarrow> (case find usable_json_link links of Some l \<Rightarrow> [link_path l] | None \<Rightarrow> [])) \<and>
   (\<not> non_platform d \<and> fetch env (d @ ''en-US/'') = Inr page \<and> page \<noteq> [] \<longrightarrow>
      fst (platform_json_links env d st) = Inr (select_json_link (get_links env page))) \<and>
   (fst (platform_json_links env d st) = Inr ls \<longrightarrow> length ls \<le> 1) \<and>
   (fetch env path = Inr build_contents \<and> fst (get_json_links env path st) = Inr ls \<longrightarrow>
      length ls \<le> length (directory_links env build_contents))"
proof -
  have "fst (platform_json_links env d st) = Inr (select_json_link (get_links env page))"
    if np: "\<not> non_platform d" and f: "fetch env (d @ ''en-US/'') = Inr page"
      and ne: "page \<noteq> []"
  proof -
    obtain st1 where "download env (d @ ''en-US/'') st = (Inr page, st1)"
      using fst_download [of env "d @ ''en-US/''" st] f
      by (cases "download env (d @ ''en-US/'') st") simp
    then show ?thesis
      using np ne by (simp add: platform_json_links_def non_platform_def bind_def ret_def)
  qed
  then show ?thesis
    using select_json_link_length [of links] select_json_link_find [of links]
      platform_json_links_length [of env d st ls]
      get_json_links_length [of env path st ls build_contents]
    by blast
qed

theorem select_json_link_at_most_one_witness:
  "select_json_link
     [\<lparr>link_path = build1 @ ''linux-i686/en-US/firefox-63.0.json'', link_text = ''firefox-63.0.json''\<rparr>,
      \<lparr>link_path = build1 @ ''linux-i686/en-US/buildhub.json'', link_text = ''buildhub.json''\<rparr>]
     = [build1 @ ''linux-i686/en-US/buildhub.json''] \<and>
   fst (platform_json_links site_env (build1 @ ''linux-i686/'') empty_state)
     = Inr [build1 @ ''linux-i686/en-US/buildhub.json''] \<and>
   fst (get_json_links site_env build1 empty_state)
     = Inr [build1 @ ''linux-i686/en-US/buildhub.json'', build1 @ ''win32/en-US/buildhub.json''] \<and>
   length (directory_links site_env ''build1 page'') = 3"
proof -
  let ?links =
    "[\<lparr>link_path = build1 @ ''linux-i686/en-US/firefox-63.0.json'', link_text = ''firefox-63.0.json''\<rparr>,
      \<lparr>link_path = build1 @ ''linux-i686/en-US/buildhub.json'', link_text = ''buildhub.json''\<rparr>]"
  let ?found = "[build1 @ ''linux-i686/en-US/buildhub.json'', build1 @ ''win32/en-US/buildhub.json'']"
  have a: "\<not> non_platform (build1 @ ''linux-i686/'')"
    by (simp add: non_platform_def NON_PLATFORM_SUBSTRINGS_def build1_def)
  have b: "fetch site_env (build1 @ ''linux-i686/'' @ ''en-US/'') = Inr ''linux page''"
    by (simp add: fetch_def site_defs)
  have c: "get_links site_env ''linux page'' = ?links"
    by (simp add: get_links_def site_defs)
  have d: "find (\<lambda>l. usable_json_link l \<and> endswith (link_path l) ''buildhub.json'') ?links
     = Some \<lparr>link_path = build1 @ ''linux-i686/en-US/buildhub.json'', link_text = ''buildhub.json''\<rparr>"
    by (simp add: usable_json_link_def endswith_def build1_def)
  have e: "fetch site_env build1 = Inr ''build1 page''"
    by (simp add: fetch_def site_defs)
  have f: "fst (get_json_links site_env build1 empty_state) = Inr ?found"
    by code_simp
  have g: "length (directory_links site_env ''build1 page'') = 3"
    by (simp add: directory_links_def get_links_def endswith_def site_defs)
  have h: "fst (platform_json_links site_env (build1 @ ''linux-i686/'') empty_state)
             = Inr [build1 @ ''linux-i686/en-US/buildhub.json'']"
    using select_json_link_at_most_one
      [of ?links "build1 @ ''linux-i686/''" site_env "''linux page''" empty_state "[]" "[]" "[]"]
      a b c d
    by (simp add: build1_def)
  show ?thesis
    using select_json_link_at_most_one
      [of ?links "build1 @ ''linux-i686/''" site_env "''linux page''" empty_state
          "[build1 @ ''linux-i686/en-US/buildhub.json'']" build1 "''build1 page''"]
      select_json_link_at_most_one
      [of ?links "build1 @ ''linux-i686/''" site_env "''linux page''" empty_state
          ?found build1 "''build1 page''"]
      d e f g h
    by (simp add: build1_def)
qed

text \<open>
  A link that ends in "buildhub.json" and has "mozinfo" in its path is not selected: the
  exclusion comes first.
\<close>

theorem select_json_link_excluded_buildhub_counterexample:
  "endswith ''/en-US/mozinfo-buildhub.json'' ''buildhub.json'' \<and>
   select_json_link
     [\<lparr>link_path = ''/en-US/mozinfo-buildhub.json'', link_text = ''mozinfo-buildhub.json''\<rparr>,
      \<lparr>link_path = ''/en-US/a.json'', link_text = ''a.json''\<rparr>] = [''/en-US/a.json'']"
  by (simp add: select_json_link_def endswith_def)

section \<open>Major versions\<close>

lemma split_without_separator: "sep \<notin> set s \<Longrightarrow> split s sep = [s]"
  by (induction s) auto

lemma split_first_field:
  "(case split s sep of [] \<Rightarrow> [] | w # _ \<Rightarrow> w) = takeWhile (\<lambda>c. c \<noteq> sep) s"
  by (induction s) (auto split: list.splits)

lemma isdigit_not_isspace: "isdigit c \<Longrightarrow> \<not> isspace c"
  by (auto simp: isdigit_def isspace_def)

lemma strip_digits:
  assumes "list_all isdigit ds"
  shows "strip ds = ds"
proof (cases ds rule: rev_cases)
  case Nil
  then show ?thesis by (simp add: strip_def)
next
  case (snoc ys y)
  have "\<not> isspace y" using assms snoc by (simp add: isdigit_not_isspace)
  moreover have "dropWhile isspace ds = ds"
    using assms by (cases ds) (auto simp: isdigit_not_isspace)
  ultimately show ?thesis using snoc by (simp add: strip_def)
qed

lemma int_unsigned_digits:
  assumes "ds \<noteq> []" and "list_all isdigit ds"
  shows "int_unsigned ds = Some (digits_value ds)"
proof -
  have "CHR ''_'' \<notin> set ds"
    using assms(2) by (auto simp: list_all_iff isdigit_def)
  then show ?thesis
    using assms by (simp add: int_unsigned_def split_without_separator)
qed

lemma py_int_digits:
  assumes "ds \<noteq> []" and "list_all isdigit ds"
  shows "py_int ds = Some (digits_value ds)"
proof -
  obtain c cs where ds: "ds = c # cs" using assms(1) by (cases ds) auto
  have "isdigit c" using assms(2) ds by simp
  then have "c \<noteq> CHR ''-''" "c \<noteq> CHR ''+''" by (auto simp: isdigit_def)
  then show ?thesis
    using int_unsigned_digits [OF assms] strip_digits [OF assms(2)] ds
    by (simp add: py_int_def)
qed

lemma py_int_empty: "py_int [] = None"
  by (simp add: py_int_def strip_def)

lemma takeWhile_dotted:
  assumes "dotted_label s"
  shows "takeWhile (\<lambda>c. c \<noteq> CHR ''.'') s = takeWhile isdigit s"
proof -
  have nd: "\<not> isdigit (CHR ''.'')" by (simp add: isdigit_def)
  note s = takeWhile_dropWhile_id [of isdigit s]
  have a: "\<forall>c \<in> set (takeWhile isdigit s). c \<noteq> CHR ''.''"
    using nd by (auto dest: set_takeWhileD)
  show ?thesis
  proof (cases "dropWhile isdigit s")
    case Nil
    then have t: "takeWhile isdigit s = s" using s by simp
    have "\<forall>c \<in> set s. c \<noteq> CHR ''.''" using a unfolding t .
    then have "takeWhile (\<lambda>c. c \<noteq> CHR ''.'') s = s" by (simp add: takeWhile_eq_all_conv)
    then show ?thesis unfolding t by simp
  next
    case (Cons c cs)
    then have c: "c = CHR ''.''" using assms by (simp add: dotted_label_def)
    have "takeWhile (\<lambda>c. c \<noteq> CHR ''.'') (takeWhile isdigit s @ CHR ''.'' # cs)
            = takeWhile isdigit s"
      using a by (simp add: takeWhile_append2)
    then show ?thesis using s unfolding Cons c by simp
  qed
qed

lemma dotted_label_major:
  assumes "dotted_label s"
  shows "major_of s = Some (leading_integer s)"
proof -
  have "takeWhile isdigit s \<noteq> []" using assms by (simp add: dotted_label_def)
  moreover have "list_all isdigit (takeWhile isdigit s)"
    by (auto simp: list_all_iff dest: set_takeWhileD)
  ultimately show ?thesis
    using py_int_digits [of "takeWhile isdigit s"] takeWhile_dotted [OF assms]
    by (simp add: major_of_def split_first_field leading_integer_def)
qed

lemma digits_value_nonneg:
  assumes "list_all isdigit ds"
  shows "0 \<le> digits_value ds"
proof -
  have d: "0 \<le> digit_value c" if "isdigit c" for c
    using that by (auto simp: isdigit_def digit_value_def)
  have "0 \<le> acc \<Longrightarrow> list_all isdigit ds \<Longrightarrow>
        0 \<le> foldl (\<lambda>acc c. 10 * acc + digit_value c) acc ds" for acc
    by (induction ds arbitrary: acc) (auto simp: d)
  then show ?thesis using assms by (simp add: digits_value_def)
qed

lemma leading_integer_nonneg: "0 \<le> leading_integer s"
  unfolding leading_integer_def
  by (rule digits_value_nonneg) (auto simp: list_all_iff dest: set_takeWhileD)

text \<open>
  C9 (amended). For a label (or version field) whose leading digits end at a dot or at
  the end of the string, the extraction succeeds and yields the leading integer.
\<close>

theorem major_of_dotted:
  assumes "dotted_label s"
  shows "first_isdigit s \<and> major_of s = Some (leading_integer s) \<and>
         major_of_json (JStr s) = Inr (leading_integer s)"
proof -
  have "first_isdigit s"
    using assms by (cases s) (auto simp: dotted_label_def first_isdigit_def split: if_splits)
  then show ?thesis
    using dotted_label_major [OF assms] by (simp add: major_of_json_def)
qed

lemmas int_defs = major_of_def py_int_def strip_def isspace_def int_unsigned_def isdigit_def
  digits_value_def digit_value_def leading_integer_def dotted_label_def first_isdigit_def

theorem major_of_dotted_witness:
  "major_of ''63.0b7-candidates/'' = Some 63 \<and> major_of_json (JStr ''63.0'') = Inr 63"
proof -
  have a: "dotted_label ''63.0b7-candidates/''" and b: "dotted_label ''63.0''"
    by (simp_all add: dotted_label_def isdigit_def)
  have c: "leading_integer ''63.0b7-candidates/'' = 63" and d: "leading_integer ''63.0'' = 63"
    by (simp_all add: leading_integer_def isdigit_def digits_value_def digit_value_def)
  show ?thesis
    using major_of_dotted [OF a] major_of_dotted [OF b] c d by simp
qed

text \<open>A label that begins with a digit and has no dot after its digits: \<open>int\<close> raises.\<close>

theorem major_of_undotted_counterexample:
  "first_isdigit ''60-candidates/'' \<and> major_of ''60-candidates/'' = None \<and>
   major_of_json (JStr ''60rc'') = Inl ValueError"
  by (simp add: int_defs major_of_json_def)

section \<open>The watermark filter\<close>

lemma filter_raising_total:
  assumes "\<forall>x \<in> set xs. p x = Inr (q x)"
  shows "filter_raising p xs = Inr (filter q xs)"
  using assms by (induction xs) (auto simp: bind_sum_def)

lemma keep_version_dotted:
  "dotted_label (link_text l) \<Longrightarrow> keep_version (w - 4) l = Inr (keep_label w l)"
  by (simp add: keep_version_def keep_label_def dotted_label_major)

lemma fst_log_then:
  "fst (bind (log_msg e) f st) = fst (f () (st\<lparr>logged := logged st @ [e]\<rparr>))"
  by (simp add: bind_def log_msg_def)

text \<open>
  For candidate labels whose leading digits end at a dot or at the end of the label the
  filter is the one described: without a watermark every candidate is kept, and with the
  watermark \<open>w\<close> a candidate is kept exactly when its leading integer is at least
  \<open>w - 4\<close> or its label contains "esr".
\<close>

lemma filter_versions_dotted:
  "fst (filter_versions None version_links st) = Inr version_links \<and>
   (list_all (\<lambda>l. dotted_label (link_text l)) version_links \<longrightarrow>
      fst (filter_versions (Some w) version_links st) =
        Inr (filter (keep_label w) version_links))"
proof -
  have "fst (filter_versions (Some w) version_links st) =
          Inr (filter (keep_label w) version_links)"
    if dotted: "list_all (\<lambda>l. dotted_label (link_text l)) version_links"
  proof (cases "w = 0")
    case True
    have "keep_label 0 l" for l
      using leading_integer_nonneg [of "link_text l"] by (simp add: keep_label_def)
    then have "filter (keep_label 0) version_links = version_links" by simp
    then show ?thesis using True by (simp add: filter_versions_def ret_def)
  next
    case False
    have "filter_raising (keep_version (w - 4)) version_links =
            Inr (filter (keep_label w) version_links)"
      using dotted by (intro filter_raising_total) (simp add: list_all_iff keep_version_dotted)
    then show ?thesis
      using False by (simp add: filter_versions_def ret_def fst_log_then)
  qed
  then show ?thesis by (simp add: filter_versions_def ret_def)
qed

lemma filter_versions_dotted_example:
  "fst (filter_versions (Some 63)
          [labelled ''59.0b1-candidates/'', labelled ''58.0b1-candidates/'',
           labelled ''52.0esr-candidates/''] empty_state) =
     Inr [labelled ''59.0b1-candidates/'', labelled ''52.0esr-candidates/'']"
proof -
  have "list_all (\<lambda>l. dotted_label (link_text l))
          [labelled ''59.0b1-candidates/'', labelled ''58.0b1-candidates/'',
           labelled ''52.0esr-candidates/'']"
    by (simp add: labelled_def dotted_label_def isdigit_def)
  with filter_versions_dotted
    [of "[labelled ''59.0b1-candidates/'', labelled ''58.0b1-candidates/'',
          labelled ''52.0esr-candidates/'']" empty_state 63]
  show ?thesis
    by (simp add: keep_label_def labelled_def leading_integer_def isdigit_def digits_value_def
          digit_value_def)
qed

text \<open>
  C3. The watermark filter at an esr label without a dot, with the watermark 63: the
  label begins with a digit and contains "esr", yet \<open>int\<close> raises before "esr" is
  looked for. The filter raises ValueError instead of keeping the candidate, and the walk
  of the product ends after the candidates listing.
\<close>

theorem filter_versions_esr_raises:
  "first_isdigit ''52esr-candidates/'' \<and> contains ''52esr-candidates/'' ''esr'' \<and>
   fst (filter_versions (Some 63) [labelled ''52esr-candidates/''] empty_state) = Inl ValueError \<and>
   fst (get_max_major_version ''Firefox'' watermark_state) = Inr (Some 63) \<and>
   fst (scrape_candidates esr_env ''Firefox'' ''firefox'' watermark_state) = Inl ValueError \<and>
   requested (snd (scrape_candidates esr_env ''Firefox'' ''firefox'' watermark_state)) =
     [''https://archive.mozilla.org/pub/firefox/releases/'',
      ''https://archive.mozilla.org/pub/firefox/candidates/'']"
  by code_simp

section \<open>The order of the build directories\<close>

lemma key_for_build_link_eq:
  "key_for_build_link l = (if has_digit l then Some (build_number l) else None)"
proof -
  have "list_all isdigit (filter isdigit (link_path l))" by (simp add: list_all_iff)
  then show ?thesis
    using py_int_digits [of "filter isdigit (link_path l)"]
    by (simp add: key_for_build_link_def has_digit_def build_number_def py_int_empty)
qed

lemma those_keys:
  "those (map key_for_build_link ls) =
     (if list_all has_digit ls then Some (map build_number ls) else None)"
  by (induction ls) (auto simp: key_for_build_link_eq split: option.splits)

lemma insort_key_decorated:
  assumes "\<forall>q \<in> set qs. fst q = f (snd q)"
  shows "map snd (insort_key fst (f x, x) qs) = insort_key f x (map snd qs)"
  using assms by (induction qs) auto

lemma sort_key_decorated:
  "map snd (sort_key fst (zip (map f xs) xs)) = sort_key f xs"
proof (induction xs)
  case Nil
  show ?case by simp
next
  case (Cons x xs)
  have "\<forall>q \<in> set (sort_key fst (zip (map f xs) xs)). fst q = f (snd q)"
    by (auto simp: set_zip)
  then show ?case
    using Cons.IH by (simp add: insort_key_decorated)
qed

lemma sort_build_links_eq:
  "sort_build_links ls =
     (if list_all has_digit ls then Inr (sort_key build_number ls) else Inl ValueError)"
  by (simp add: sort_build_links_def those_keys sort_key_decorated)

text \<open>
  C4 (amended). When every build link of a version listing has a digit in its path, the
  walk goes through the build links sorted ascending by the number their path's digits
  write (every link kept, numbered from 0 in that order), so build2 comes before build10;
  when some build link has no digit in its path, the walk of the version raises
  ValueError before any build is looked at.
\<close>

theorem scrape_version_walks_sorted:
  assumes "fetch env (link_path l) = Inr page"
    and "index (split (link_path l) (CHR ''/'')) 4 = Some segment"
  shows "(list_all has_digit (build_links_of env page) \<longrightarrow>
           scrape_version env name final_releases l st =
             foreach (enumerate 0 (sort_key build_number (build_links_of env page)))
               (scrape_build env name (replace segment ''-candidates'' [])
                  (replace segment ''-candidates'' [] \<in> set final_releases)
                  (length (build_links_of env page)))
               (snd (download env (link_path l) st))) \<and>
         (\<not> list_all has_digit (build_links_of env page) \<longrightarrow>
           scrape_version env name final_releases l st =
             (Inl ValueError, snd (download env (link_path l) st))) \<and>
         sorted (map build_number (sort_key build_number (build_links_of env page))) \<and>
         mset (sort_key build_number (build_links_of env page)) = mset (build_links_of env page)"
proof -
  obtain st1 where d: "download env (link_path l) st = (Inr page, st1)"
    using fst_download [of env "link_path l" st] assms(1)
    by (cases "download env (link_path l) st") simp
  show ?thesis
    using d assms(2)
    by (simp add: scrape_version_def bind_def Let_def sort_build_links_eq raise_def
          build_links_of_def)
qed

theorem scrape_version_walks_sorted_witness:
  "map build_number (sort_key build_number
       (build_links_of (version_page_env three_builds) ''version page'')) = [6301, 6302, 63010] \<and>
   logged (snd (scrape_version (version_page_env three_builds) ''Firefox'' []
       (labelled ''63.0-candidates/'') empty_state)) =
     [LogNoJsonFiles ''/pub/firefox/candidates/63.0-candidates/build1/'',
      LogNoJsonFiles ''/pub/firefox/candidates/63.0-candidates/build2/'',
      LogNoJsonFiles ''/pub/firefox/candidates/63.0-candidates/build10/''] \<and>
   sort_build_links [build_dir ''build1/'', build_dir ''build10/'', build_dir ''build2/''] =
     Inr [build_dir ''build1/'', build_dir ''build2/'', build_dir ''build10/''] \<and>
   map build_number [build_dir ''build1/'', build_dir ''build2/'', build_dir ''build10/'']
     = [1, 2, 10]"
proof -
  let ?env = "version_page_env three_builds"
  let ?l = "labelled ''63.0-candidates/''"
  have a: "fetch ?env (link_path ?l) = Inr ''version page''"
    by (simp add: fetch_def version_page_env_def example_env_def labelled_def)
  have b: "index (split (link_path ?l) (CHR ''/'')) 4 = Some ''63.0-candidates''"
    by (simp add: index_def labelled_def)
  have c: "list_all has_digit (build_links_of ?env ''version page'')"
    by code_simp
  have k: "map build_number (sort_key build_number (build_links_of ?env ''version page''))
             = [6301, 6302, 63010]"
    by code_simp
  have r: "logged (snd (foreach (enumerate 0 (sort_key build_number
                (build_links_of ?env ''version page'')))
             (scrape_build ?env ''Firefox'' (replace ''63.0-candidates'' ''-candidates'' [])
                (replace ''63.0-candidates'' ''-candidates'' [] \<in> set [])
                (length (build_links_of ?env ''version page'')))
             (snd (download ?env (link_path ?l) empty_state)))) =
     [LogNoJsonFiles ''/pub/firefox/candidates/63.0-candidates/build1/'',
      LogNoJsonFiles ''/pub/firefox/candidates/63.0-candidates/build2/'',
      LogNoJsonFiles ''/pub/firefox/candidates/63.0-candidates/build10/'']"
    by code_simp
  have s: "sort_build_links [build_dir ''build1/'', build_dir ''build10/'', build_dir ''build2/''] =
       Inr [build_dir ''build1/'', build_dir ''build2/'', build_dir ''build10/''] \<and>
     map build_number [build_dir ''build1/'', build_dir ''build2/'', build_dir ''build10/'']
       = [1, 2, 10]"
    by (simp add: sort_build_links_eq build_dir_def has_digit_def build_number_def isdigit_def
          digits_value_def digit_value_def)
  have "scrape_version ?env ''Firefox'' [] ?l empty_state =
          foreach (enumerate 0 (sort_key build_number (build_links_of ?env ''version page'')))
             (scrape_build ?env ''Firefox'' (replace ''63.0-candidates'' ''-candidates'' [])
                (replace ''63.0-candidates'' ''-candidates'' [] \<in> set [])
                (length (build_links_of ?env ''version page'')))
             (snd (download ?env (link_path ?l) empty_state))"
    using scrape_version_walks_sorted [OF a b, of "''Firefox''" "[]" empty_state] c by blast
  then show ?thesis using k r s by simp
qed

text \<open>A build link without a digit in its path: \<open>int('')\<close> raises.\<close>

theorem scrape_version_no_digit_counterexample:
  "startswith ''build-notes/'' ''build'' \<and>
   sort_build_links [build_dir ''build-notes/''] = Inl ValueError \<and>
   fst (scrape_version (version_page_env [anchor_to ''build-notes/'' ''build-notes/''])
          ''Firefox'' [] (labelled ''63.0-candidates/'') empty_state) = Inl ValueError"
  by code_simp

section \<open>Statements that do not depend on the state\<close>

lemma stateless_ret: "stateless env (ret x)"
  unfolding stateless_def by (intro exI) (rule yields_ret)

lemma stateless_raise: "stateless env (raise e)"
  unfolding stateless_def by (intro exI) (rule yields_raise)

lemma stateless_log_msg: "stateless env (log_msg e)"
  unfolding stateless_def by (intro exI) (rule yields_log_msg)

lemma stateless_download: "stateless env (download env p)"
  unfolding stateless_def by (intro exI) (rule yields_download)

lemma stateless_insert_build: "stateless env (insert_build env row)"
  unfolding stateless_def by (intro exI) (rule yields_insert_build)

lemma stateless_bind:
  assumes "stateless env m" and "\<And>x. stateless env (f x)"
  shows "stateless env (bind m f)"
proof -
  obtain r ps rows where m: "yields env m r ps rows"
    using assms(1) unfolding stateless_def by blast
  show ?thesis
  proof (cases r)
    case (Inl e)
    then have "yields env (bind m f) (Inl e) ps rows"
      using m by (simp add: yields_bind_raise)
    then show ?thesis unfolding stateless_def by blast
  next
    case (Inr x)
    obtain r' ps' rows' where "yields env (f x) r' ps' rows'"
      using assms(2) [of x] unfolding stateless_def by blast
    then have "yields env (bind m f) r' (ps @ ps') (rows @ rows')"
      using m Inr by (simp add: yields_bind)
    then show ?thesis unfolding stateless_def by blast
  qed
qed

lemma stateless_foreach:
  assumes "\<And>x. stateless env (body x)"
  shows "stateless env (foreach xs body)"
proof (induction xs)
  case Nil
  show ?case unfolding foreach.simps by (rule stateless_ret)
next
  case (Cons x xs)
  show ?case unfolding foreach.simps by (rule stateless_bind) (rule assms, rule Cons.IH)
qed

lemma stateless_collect:
  assumes "\<And>x. stateless env (body x)"
  shows "stateless env (collect xs body)"
proof (induction xs)
  case Nil
  show ?case unfolding collect.simps by (rule stateless_ret)
next
  case (Cons x xs)
  show ?case
    unfolding collect.simps
    by (intro stateless_bind assms Cons.IH stateless_ret)
qed

lemmas stateless_intros = stateless_ret stateless_raise stateless_log_msg stateless_download
  stateless_insert_build stateless_bind stateless_foreach stateless_collect

lemma stateless_if:
  "(c \<Longrightarrow> stateless env a) \<Longrightarrow> (\<not> c \<Longrightarrow> stateless env b) \<Longrightarrow> stateless env (if c then a else b)"
  by simp

lemma stateless_platform_json_links: "stateless env (platform_json_links env d)"
  unfolding platform_json_links_def
  by (intro stateless_intros stateless_if)

lemma stateless_get_json_links: "stateless env (get_json_links env path)"
  unfolding get_json_links_def Let_def
  by (intro stateless_intros stateless_platform_json_links)

lemma stateless_insert_rows:
  "stateless env (insert_rows env data version_root rc_version_string final_build)"
  unfolding insert_rows_def Let_def
  by (intro stateless_intros stateless_if)

lemma stateless_scrape_json_link:
  "stateless env (scrape_json_link env name version_root is_final n i bl json_link)"
  unfolding scrape_json_link_def Let_def
proof (intro stateless_bind stateless_download)
  fix json_file
  show "stateless env
     (case json_loads env json_file of
        None \<Rightarrow> raise ValueError
      | Some parsed \<Rightarrow>
          (case read_build_data env name json_link parsed of
             Inl e \<Rightarrow> raise e
           | Inr data \<Rightarrow>
               insert_rows env data version_root
                 (version_root @ ''rc'' @ butlast (drop 5 (link_text bl)))
                 (i + 1 = n \<and> is_final)))"
    by (simp add: stateless_raise stateless_insert_rows split: option.splits sum.splits)
qed

lemma stateless_scrape_build:
  "stateless env (scrape_build env name version_root is_final n ib)"
proof (cases ib)
  case (Pair i bl)
  show ?thesis
    unfolding scrape_build_def Pair prod.case
    by (intro stateless_intros stateless_if stateless_get_json_links
          stateless_scrape_json_link)
qed

lemma stateless_scrape_version:
  "stateless env (scrape_version env name final_releases l)"
  unfolding scrape_version_def Let_def
proof (intro stateless_bind stateless_download)
  fix page
  show "stateless env
     (case index (split (link_path l) CHR ''/'') 4 of
        None \<Rightarrow> raise IndexError
      | Some segment \<Rightarrow>
          (case sort_build_links
                  (filter (\<lambda>b. startswith (link_text b) ''build'') (get_links env page)) of
             Inl e \<Rightarrow> raise e
           | Inr sorted_links \<Rightarrow>
               foreach (enumerate 0 sorted_links)
                 (scrape_build env name (replace segment ''-candidates'' [])
                    (replace segment ''-candidates'' [] \<in> set final_releases)
                    (length sorted_links))))"
    by (simp add: stateless_raise stateless_foreach stateless_scrape_build
          split: option.splits sum.splits)
qed

section \<open>The watermark over two runs\<close>

lemma get_max_major_version_eq:
  "get_max_major_version name st = (Inr (max_major name (catalog st)), st)"
  by (simp add: get_max_major_version_def max_major_def)

lemma scrape_candidates_eq:
  "scrape_candidates env name dir st =
     walk_candidates env name dir (max_major name (catalog st)) st"
  by (simp add: scrape_candidates_def bind_def get_max_major_version_eq)

lemma fold_max_ge: "(a::int) \<le> fold max xs a"
proof (induction xs arbitrary: a)
  case Nil
  show ?case by simp
next
  case (Cons x xs)
  have "a \<le> max x a" by simp
  also have "\<dots> \<le> fold max xs (max x a)" by (rule Cons.IH)
  finally show ?case by simp
qed

lemma max_major_append:
  assumes "max_major name table = Some a"
  shows "\<exists>b. max_major name (table @ extra) = Some b \<and> a \<le> b"
proof -
  let ?f = "\<lambda>t. map major_version (filter (\<lambda>r. product_name r = name) t)"
  have c: "[major_version r. r \<leftarrow> t, product_name r = name] = ?f t" for t
    by (simp add: comprehension_map_filter)
  obtain m ms where f: "?f table = m # ms" and a: "a = fold max ms m"
    using assms unfolding max_major_def c by (simp split: list.splits)
  have "?f (table @ extra) = m # (ms @ ?f extra)" using f by simp
  then have "max_major name (table @ extra) = Some (fold max (?f extra) (fold max ms m))"
    unfolding max_major_def c by simp
  then show ?thesis using a fold_max_ge by blast
qed

lemma yields_filter_versions:
  "yields env (filter_versions w vl)
     (kept_versions w vl) [] []"
proof -
  have a: "yields env (bind (log_msg e) (\<lambda>_. case r of Inl e \<Rightarrow> raise e | Inr kept \<Rightarrow> ret kept))
             r ([] @ []) ([] @ [])" for e and r :: "error + link list"
    by (rule yields_bind [OF yields_log_msg]) (cases r; simp add: yields_raise yields_ret)
  show ?thesis
    using a by (simp add: filter_versions_def kept_versions_def yields_ret split: option.splits)
qed

lemma filter_raising_Inr:
  assumes "filter_raising p xs = Inr ys"
  shows "(\<forall>x \<in> set xs. p x = Inr (p x = Inr True)) \<and> ys = filter (\<lambda>x. p x = Inr True) xs"
  using assms
proof (induction xs arbitrary: ys)
  case Nil
  then show ?case by simp
next
  case (Cons x xs)
  obtain b where b: "p x = Inr b"
    using Cons.prems by (cases "p x") (simp_all add: bind_sum_def)
  obtain zs where zs: "filter_raising p xs = Inr zs"
    using Cons.prems b by (cases "filter_raising p xs") (simp_all add: bind_sum_def)
  have ys: "ys = (if b then x # zs else zs)"
    using Cons.prems b zs by (simp add: bind_sum_def)
  show ?case
    using Cons.IH [OF zs] b ys by auto
qed

lemma first_isdigit_major_nonneg:
  assumes "first_isdigit s" and "major_of s = Some m"
  shows "0 \<le> m"
proof -
  obtain c cs where s: "s = c # cs" and c: "isdigit c"
    using assms(1) by (cases s) (auto simp: first_isdigit_def)
  have cd: "c \<noteq> CHR ''.''" "c \<noteq> CHR ''-''" "c \<noteq> CHR ''+''" "\<not> isspace c"
    using c by (auto simp: isdigit_def isspace_def)
  define t where "t = takeWhile (\<lambda>c. c \<noteq> CHR ''.'') cs"
  have "major_of s = py_int (takeWhile (\<lambda>c. c \<noteq> CHR ''.'') s)"
    by (simp only: major_of_def split_first_field)
  then have m: "py_int (c # t) = Some m"
    using assms(2) cd by (simp add: s t_def)
  have "\<exists>u. rev (dropWhile isspace (rev (c # t))) = c # u"
  proof (induction t rule: rev_induct)
    case Nil
    show ?case using cd by simp
  next
    case (snoc x xs)
    then show ?case by (cases "isspace x") auto
  qed
  then obtain u where u: "strip (c # t) = c # u"
    using cd by (auto simp: strip_def)
  have "int_unsigned (c # u) = Some m"
    using m u cd by (simp add: py_int_def)
  then have "m = digits_value (concat (split (c # u) (CHR ''_'')))" and
    "list_all (\<lambda>g. g \<noteq> [] \<and> list_all isdigit g) (split (c # u) (CHR ''_''))"
    by (auto simp: int_unsigned_def Let_def split: if_splits)
  moreover have "list_all isdigit (concat gs)" if "list_all (\<lambda>g. g \<noteq> [] \<and> list_all isdigit g) gs"
    for gs using that by (induction gs) auto
  ultimately show ?thesis using digits_value_nonneg by blast
qed

lemma filter_raising_subset:
  "filter_raising p xs = Inr ys \<Longrightarrow> set ys \<subseteq> set xs"
  using filter_raising_Inr [of p xs ys] by auto

lemma kept_versions_subset:
  "kept_versions w vl = Inr ys \<Longrightarrow> set ys \<subseteq> set vl"
  using filter_raising_subset
  by (fastforce simp: kept_versions_def split: option.splits if_splits)

lemma kept_versions_antimono:
  assumes k1: "kept_versions w1 vl = Inr k1" and k2: "kept_versions w2 vl = Inr k2"
    and le: "w1 = None \<or> (\<exists>a b. w1 = Some a \<and> w2 = Some b \<and> a \<le> b)"
    and dg: "\<forall>l \<in> set vl. first_isdigit (link_text l)"
  shows "set k2 \<subseteq> set k1"
proof (cases "w1 = None \<or> w1 = Some 0")
  case True
  then have "k1 = vl" using k1 by (auto simp: kept_versions_def)
  then show ?thesis using kept_versions_subset [OF k2] by simp
next
  case False
  then obtain a b where w: "w1 = Some a" "w2 = Some b" "a \<le> b" "a \<noteq> 0"
    using le by auto
  have "filter_raising (keep_version (a - 4)) vl = Inr k1"
    using k1 w by (simp add: kept_versions_def)
  note fr = filter_raising_Inr [OF this]
  define q where "q = (\<lambda>l. keep_version (a - 4) l = Inr True)"
  have q: "\<forall>l \<in> set vl. keep_version (a - 4) l = Inr (q l)" "k1 = filter q vl"
    using fr unfolding q_def by blast+
  have maj: "\<exists>m. major_of (link_text l) = Some m \<and> 0 \<le> m \<and>
               q l = (a - 4 \<le> m \<or> contains (link_text l) ''esr'')" if "l \<in> set vl" for l
  proof -
    have kl: "keep_version (a - 4) l = Inr (q l)" using q(1) that by blast
    then obtain m where m: "major_of (link_text l) = Some m"
      by (cases "major_of (link_text l)") (auto simp: keep_version_def)
    moreover have "first_isdigit (link_text l)" using dg that by blast
    ultimately show ?thesis
      using kl first_isdigit_major_nonneg [of "link_text l" m]
      by (auto simp: keep_version_def)
  qed
  show ?thesis
  proof
    fix l assume l: "l \<in> set k2"
    then have lv: "l \<in> set vl" using kept_versions_subset [OF k2] by auto
    obtain m where m: "major_of (link_text l) = Some m" "0 \<le> m"
      "q l = (a - 4 \<le> m \<or> contains (link_text l) ''esr'')"
      using maj [OF lv] by blast
    have "q l"
    proof (cases "b = 0")
      case True
      then show ?thesis using w m by simp
    next
      case False
      then have "filter_raising (keep_version (b - 4)) vl = Inr k2"
        using k2 w by (simp add: kept_versions_def)
      note fr2 = filter_raising_Inr [OF this]
      define q2 where "q2 = (\<lambda>l. keep_version (b - 4) l = Inr True)"
      have q2: "\<forall>l \<in> set vl. keep_version (b - 4) l = Inr (q2 l)" "k2 = filter q2 vl"
        using fr2 unfolding q2_def by blast+
      have "q2 l" using l q2(2) by simp
      moreover have "keep_version (b - 4) l = Inr (q2 l)" using q2(1) lv by blast
      ultimately have "b - 4 \<le> m \<or> contains (link_text l) ''esr''"
        using m(1) by (auto simp: keep_version_def)
      then show ?thesis using m(3) w(3) by auto
    qed
    then show "l \<in> set k1" using q(2) lv by simp
  qed
qed

section \<open>Loops over state-independent bodies\<close>

lemma stateless_yields:
  assumes "stateless env m"
  obtains r ps rows where "yields env m r ps rows"
  using assms unfolding stateless_def by blast

lemma foreach_all_ok:
  assumes st: "\<And>x. stateless env (body x)"
    and y: "yields env (foreach xs body) (Inr ()) ps rows"
    and x: "x \<in> set xs"
  shows "\<exists>ps' rows'. yields env (body x) (Inr ()) ps' rows' \<and> set rows' \<subseteq> set rows"
  using y x
proof (induction xs arbitrary: ps rows)
  case Nil
  then show ?case by simp
next
  case (Cons z zs)
  obtain r0 p0 rows0 where b: "yields env (body z) r0 p0 rows0"
    using st [of z] by (rule stateless_yields)
  obtain r' p' rows' where f: "yields env (foreach zs body) r' p' rows'"
    using stateless_foreach [of env body zs, OF st] by (rule stateless_yields)
  have whole: "yields env (bind (body z) (\<lambda>_. foreach zs body)) (Inr ()) ps rows"
    using Cons.prems(1) by simp
  show ?case
  proof (cases r0)
    case (Inl e)
    then have "yields env (bind (body z) (\<lambda>_. foreach zs body)) (Inl e) p0 rows0"
      using b by (simp add: yields_bind_raise)
    then show ?thesis using yields_unique(1) [OF whole] by blast
  next
    case (Inr u)
    then have "yields env (bind (body z) (\<lambda>_. foreach zs body)) r' (p0 @ p') (rows0 @ rows')"
      using b f yields_bind [of env "body z" u p0 rows0 "\<lambda>_. foreach zs body" r' p' rows']
      by simp
    then have eq: "r' = Inr ()" "rows = rows0 @ rows'"
      using yields_unique [OF whole] by blast+
    show ?thesis
    proof (cases "x = z")
      case True
      then show ?thesis using b Inr eq by auto
    next
      case False
      then have "x \<in> set zs" using Cons.prems(2) by simp
      then obtain q rs where "yields env (body x) (Inr ()) q rs" "set rs \<subseteq> set rows'"
        using Cons.IH [of p' rows'] f eq(1) by blast
      then show ?thesis using eq(2) by auto
    qed
  qed
qed

lemma foreach_within:
  assumes "\<forall>y \<in> set ys. \<exists>ps rows. yields env (body y) (Inr ()) ps rows \<and> set rows \<subseteq> R"
  shows "\<exists>ps rows. yields env (foreach ys body) (Inr ()) ps rows \<and> set rows \<subseteq> R"
  using assms
proof (induction ys)
  case Nil
  have "yields env (foreach [] body) (Inr ()) [] []" by (simp add: yields_ret)
  then show ?case by (metis empty_set empty_subsetI)
next
  case (Cons y ys)
  obtain p0 rows0 where b: "yields env (body y) (Inr ()) p0 rows0" "set rows0 \<subseteq> R"
    using Cons.prems by auto
  obtain p' rows' where f: "yields env (foreach ys body) (Inr ()) p' rows'" "set rows' \<subseteq> R"
    using Cons.IH Cons.prems by auto
  have "yields env (foreach (y # ys) body) (Inr ()) (p0 @ p') (rows0 @ rows')"
    using yields_bind [of env "body y" "()" p0 rows0 "\<lambda>_. foreach ys body", OF b(1) f(1)]
    by simp
  moreover have "set (rows0 @ rows') \<subseteq> R" using b(2) f(2) by simp
  ultimately show ?case by blast
qed

lemma store_step_duplicate:
  "unique_key env row \<in> set (map (unique_key env) (fst tab)) \<Longrightarrow> store_step env tab row = tab"
  by (simp add: store_step_def execute_insert_def split: db_outcome.splits)

lemma store_all_duplicates:
  "\<forall>row \<in> set rows. unique_key env row \<in> set (map (unique_key env) (fst tab)) \<Longrightarrow>
   foldl (store_step env) tab rows = tab"
  by (induction rows) (simp_all add: store_step_duplicate)

lemma store_extends:
  "\<exists>extra. fst (foldl (store_step env) tab rows) = fst tab @ extra"
proof (induction rows arbitrary: tab)
  case Nil
  show ?case by simp
next
  case (Cons row rows)
  obtain e1 where "fst (store_step env tab row) = fst tab @ e1"
    by (cases "execute_insert env (fst tab) row") (auto simp: store_step_def)
  moreover obtain e2 where
    "fst (foldl (store_step env) (store_step env tab row) rows) =
       fst (store_step env tab row) @ e2"
    using Cons.IH by blast
  ultimately show ?case by simp
qed

section \<open>The walk of one product, twice\<close>

lemma walk_candidates_eq:
  "walk_candidates env name dir w =
     bind (download env (''/pub/'' @ dir @ ''/releases/'')) (\<lambda>c1.
     bind (download env (''/pub/'' @ dir @ ''/candidates/'')) (\<lambda>c2.
     bind (filter_versions w (candidate_links env c2)) (\<lambda>kept.
     foreach kept (scrape_version env name (release_names env c1)))))"
  by (simp add: walk_candidates_def Let_def release_names_def candidate_links_def
        comprehension_map_filter)

lemma yields_walk_candidates:
  assumes "fetch env (''/pub/'' @ dir @ ''/releases/'') = Inr c1"
    and "fetch env (''/pub/'' @ dir @ ''/candidates/'') = Inr c2"
    and "kept_versions w (candidate_links env c2) = Inr kept"
    and "yields env (foreach kept (scrape_version env name (release_names env c1))) r ps rows"
  shows "yields env (walk_candidates env name dir w) r
           ([''/pub/'' @ dir @ ''/releases/''] @ [''/pub/'' @ dir @ ''/candidates/''] @ [] @ ps)
           ([] @ [] @ [] @ rows)"
  unfolding walk_candidates_eq
  apply (rule yields_bind [where x = c1])
   apply (use yields_download [of env "''/pub/'' @ dir @ ''/releases/''"] assms(1) in simp)
  apply (rule yields_bind [where x = c2])
   apply (use yields_download [of env "''/pub/'' @ dir @ ''/candidates/''"] assms(2) in simp)
  apply (rule yields_bind [where x = kept])
   apply (use yields_filter_versions [of env w "candidate_links env c2"] assms(3) in simp)
  apply (rule assms(4))
  done

lemma walk_candidates_raises:
  assumes "fetch env (''/pub/'' @ dir @ ''/releases/'') = Inl e \<or>
           fetch env (''/pub/'' @ dir @ ''/candidates/'') = Inl e \<or>
           (\<exists>c2. fetch env (''/pub/'' @ dir @ ''/candidates/'') = Inr c2 \<and>
                 kept_versions w (candidate_links env c2) = Inl e)"
  shows "\<exists>e' ps. yields env (walk_candidates env name dir w) (Inl e') ps []"
proof (cases "fetch env (''/pub/'' @ dir @ ''/releases/'')")
  case (Inl e1)
  have "yields env (walk_candidates env name dir w) (Inl e1) [''/pub/'' @ dir @ ''/releases/''] []"
    unfolding walk_candidates_eq
    by (rule yields_bind_raise)
       (use yields_download [of env "''/pub/'' @ dir @ ''/releases/''"] Inl in simp)
  then show ?thesis by blast
next
  case (Inr c1)
  note c1 = yields_download [of env "''/pub/'' @ dir @ ''/releases/''", unfolded Inr]
  show ?thesis
  proof (cases "fetch env (''/pub/'' @ dir @ ''/candidates/'')")
    case (Inl e2)
    have "yields env (walk_candidates env name dir w) (Inl e2)
            ([''/pub/'' @ dir @ ''/releases/''] @ [''/pub/'' @ dir @ ''/candidates/'']) ([] @ [])"
      unfolding walk_candidates_eq
      by (rule yields_bind [OF c1], rule yields_bind_raise)
         (use yields_download [of env "''/pub/'' @ dir @ ''/candidates/''"] Inl in simp)
    then show ?thesis by auto
  next
    case c2: (Inr c2)
    note c2' = yields_download [of env "''/pub/'' @ dir @ ''/candidates/''", unfolded c2]
    have k: "kept_versions w (candidate_links env c2) = Inl e"
      using assms Inr c2 by auto
    have "yields env (walk_candidates env name dir w) (Inl e)
            ([''/pub/'' @ dir @ ''/releases/''] @ [''/pub/'' @ dir @ ''/candidates/''] @ [])
            ([] @ [] @ [])"
      unfolding walk_candidates_eq
      by (rule yields_bind [OF c1], rule yields_bind [OF c2'], rule yields_bind_raise)
         (use yields_filter_versions [of env w "candidate_links env c2"] k in simp)
    then show ?thesis by auto
  qed
qed

lemma candidate_links_first_isdigit:
  "\<forall>l \<in> set (candidate_links env page). first_isdigit (link_text l)"
  by (simp add: candidate_links_def)

lemma walk_candidates_rows_antimono:
  assumes y1: "yields env (walk_candidates env name dir w1) (Inr ()) ps1 rows1"
    and y2: "yields env (walk_candidates env name dir w2) r2 ps2 rows2"
    and le: "w1 = None \<or> (\<exists>a b. w1 = Some a \<and> w2 = Some b \<and> a \<le> b)"
  shows "set rows2 \<subseteq> set rows1"
proof -
  have no_raise: False if "yields env (walk_candidates env name dir w1) (Inl e) ps rows"
    for e ps rows
    using yields_unique(1) [OF y1 that] by simp
  have nr: "\<not> (fetch env (''/pub/'' @ dir @ ''/releases/'') = Inl e \<or>
           fetch env (''/pub/'' @ dir @ ''/candidates/'') = Inl e \<or>
           (\<exists>c2. fetch env (''/pub/'' @ dir @ ''/candidates/'') = Inr c2 \<and>
                 kept_versions w1 (candidate_links env c2) = Inl e))" for e
    using walk_candidates_raises [of env dir e w1 name] no_raise by blast
  obtain c1 where c1: "fetch env (''/pub/'' @ dir @ ''/releases/'') = Inr c1"
    using nr by (cases "fetch env (''/pub/'' @ dir @ ''/releases/'')") auto
  obtain c2 where c2: "fetch env (''/pub/'' @ dir @ ''/candidates/'') = Inr c2"
    using nr by (cases "fetch env (''/pub/'' @ dir @ ''/candidates/'')") auto
  obtain k1 where k1: "kept_versions w1 (candidate_links env c2) = Inr k1"
    using nr c2 by (cases "kept_versions w1 (candidate_links env c2)") auto
  let ?body = "scrape_version env name (release_names env c1)"
  have sb: "stateless env (?body l)" for l
    by (rule stateless_scrape_version)
  obtain rf pf rowsf where f1: "yields env (foreach k1 ?body) rf pf rowsf"
    using stateless_foreach [of env ?body k1, OF sb] by (rule stateless_yields)
  have "rf = Inr ()" "rows1 = [] @ [] @ [] @ rowsf"
    using yields_unique [OF y1 yields_walk_candidates [OF c1 c2 k1 f1]] by blast+
  then have f1': "yields env (foreach k1 ?body) (Inr ()) pf rows1"
    using f1 by simp
  show ?thesis
  proof (cases "kept_versions w2 (candidate_links env c2)")
    case (Inl e)
    then obtain e' ps where "yields env (walk_candidates env name dir w2) (Inl e') ps []"
      using walk_candidates_raises [of env dir e w2 name] c2 by blast
    then have "rows2 = []" using yields_unique(2) [OF y2] by blast
    then show ?thesis by simp
  next
    case (Inr k2)
    have sub: "set k2 \<subseteq> set k1"
      using kept_versions_antimono [OF k1 Inr le candidate_links_first_isdigit] .
    have "\<forall>l \<in> set k2. \<exists>ps rows. yields env (?body l) (Inr ()) ps rows \<and> set rows \<subseteq> set rows1"
      using foreach_all_ok [of env ?body k1 pf rows1, OF sb f1'] sub by blast
    then obtain p2 rows2' where f2: "yields env (foreach k2 ?body) (Inr ()) p2 rows2'"
      "set rows2' \<subseteq> set rows1"
      using foreach_within [of k2 env ?body "set rows1"] by blast
    have "rows2 = [] @ [] @ [] @ rows2'"
      using yields_unique(2) [OF y2 yields_walk_candidates [OF c1 c2 Inr f2(1)]] .
    then show ?thesis using f2(2) by simp
  qed
qed

lemma stateless_walk_candidates: "stateless env (walk_candidates env name dir w)"
proof -
  have "stateless env (filter_versions w vl)" for vl
    unfolding stateless_def using yields_filter_versions by blast
  then show ?thesis
    unfolding walk_candidates_eq
    by (intro stateless_bind stateless_download stateless_foreach stateless_scrape_version)
qed

text \<open>
  C5 (amended). Let a first walk of a product return normally, and let the table then hold a row
  with the unique key of every row that walk tried to insert. A second walk against the
  same archive inserts nothing: the table and the counter of successful inserts stay as
  they were, and no INSERT it sends is accepted.
\<close>

theorem scrape_candidates_idempotent:
  assumes st1: "st1 = snd (scrape_candidates env name dir st0)"
    and st2: "st2 = snd (scrape_candidates env name dir st1)"
    and ok: "fst (scrape_candidates env name dir st0) = Inr ()"
    and present: "list_all (\<lambda>row. unique_key env row \<in> set (map (unique_key env) (catalog st1)))
                    (drop (length (executed st0)) (executed st1))"
  shows "catalog st2 = catalog st1 \<and> successful_inserts st2 = successful_inserts st1 \<and>
         list_all (\<lambda>row. execute_insert env (catalog st1) row \<noteq> Inserted)
           (drop (length (executed st1)) (executed st2))"
proof -
  let ?w1 = "max_major name (catalog st0)" and ?w2 = "max_major name (catalog st1)"
  obtain r1 ps1 rows1 where y1: "yields env (walk_candidates env name dir ?w1) r1 ps1 rows1"
    using stateless_walk_candidates by (rule stateless_yields)
  obtain r2 ps2 rows2 where y2: "yields env (walk_candidates env name dir ?w2) r2 ps2 rows2"
    using stateless_walk_candidates by (rule stateless_yields)
  have run1: "r1 = Inr ()" "executed st1 = executed st0 @ rows1"
    "(catalog st1, successful_inserts st1) =
       foldl (store_step env) (catalog st0, successful_inserts st0) rows1"
    using y1 ok st1 unfolding yields_def scrape_candidates_eq by (auto dest: spec [of _ st0])
  have run2: "executed st2 = executed st1 @ rows2"
    "(catalog st2, successful_inserts st2) =
       foldl (store_step env) (catalog st1, successful_inserts st1) rows2"
    using y2 st2 unfolding yields_def scrape_candidates_eq by (auto dest: spec [of _ st1])
  obtain extra where "catalog st1 = catalog st0 @ extra"
    using store_extends [of env "(catalog st0, successful_inserts st0)" rows1] run1(3)
    by (metis fst_conv)
  then have le: "?w1 = None \<or> (\<exists>a b. ?w1 = Some a \<and> ?w2 = Some b \<and> a \<le> b)"
    using max_major_append [of name "catalog st0" _ extra] by (cases ?w1) auto
  have sub: "set rows2 \<subseteq> set rows1"
    using walk_candidates_rows_antimono [OF y1 [unfolded run1(1)] y2 le] .
  have "\<forall>row \<in> set rows1. unique_key env row \<in> set (map (unique_key env) (catalog st1))"
    using present run1(2) by (simp add: list_all_iff)
  then have dup: "\<forall>row \<in> set rows2.
      unique_key env row \<in> set (map (unique_key env) (fst (catalog st1, successful_inserts st1)))"
    using sub by auto
  have "(catalog st2, successful_inserts st2) = (catalog st1, successful_inserts st1)"
    using run2(2) store_all_duplicates [OF dup] by simp
  moreover have "execute_insert env (catalog st1) row \<noteq> Inserted" if "row \<in> set rows2" for row
    using dup that by (auto simp: execute_insert_def split: db_outcome.splits)
  ultimately show ?thesis
    using run2(1) by (simp add: list_all_iff)
qed

theorem scrape_candidates_idempotent_witness:
  "fst (scrape_candidates site_env ''Firefox'' ''firefox'' empty_state) = Inr () \<and>
   successful_inserts (snd (scrape_candidates site_env ''Firefox'' ''firefox'' empty_state)) = 2 \<and>
   catalog (snd (scrape_candidates site_env ''Firefox'' ''firefox''
             (snd (scrape_candidates site_env ''Firefox'' ''firefox'' empty_state)))) =
     catalog (snd (scrape_candidates site_env ''Firefox'' ''firefox'' empty_state)) \<and>
   successful_inserts (snd (scrape_candidates site_env ''Firefox'' ''firefox''
             (snd (scrape_candidates site_env ''Firefox'' ''firefox'' empty_state)))) = 2"
proof -
  have ok: "fst (scrape_candidates site_env ''Firefox'' ''firefox'' empty_state) = Inr ()"
    by code_simp
  have present:
    "list_all (\<lambda>row. unique_key site_env row \<in> set (map (unique_key site_env)
         (catalog (snd (scrape_candidates site_env ''Firefox'' ''firefox'' empty_state)))))
       (drop (length (executed empty_state))
         (executed (snd (scrape_candidates site_env ''Firefox'' ''firefox'' empty_state))))"
    by code_simp
  have n: "successful_inserts
             (snd (scrape_candidates site_env ''Firefox'' ''firefox'' empty_state)) = 2"
    by code_simp
  show ?thesis
    using scrape_candidates_idempotent [OF refl refl ok present] ok n by simp
qed

text \<open>
  A first walk that raises: on an empty table the walk inserts the row of 70.0 and stops
  at the file of 50.0. The second walk reads the watermark 70, skips 50.0 and inserts the
  row of 71.0, which the first walk never reached.
\<close>

theorem second_walk_after_aborted_walk_counterexample:
  "fst (scrape_candidates broken_env ''Firefox'' ''firefox'' empty_state) = Inl ValueError \<and>
   list_all (\<lambda>row. unique_key broken_env row \<in> set (map (unique_key broken_env)
         (catalog (snd (scrape_candidates broken_env ''Firefox'' ''firefox'' empty_state)))))
       (executed (snd (scrape_candidates broken_env ''Firefox'' ''firefox'' empty_state))) \<and>
   successful_inserts (snd (scrape_candidates broken_env ''Firefox'' ''firefox'' empty_state)) = 1 \<and>
   successful_inserts (snd (scrape_candidates broken_env ''Firefox'' ''firefox''
       (snd (scrape_candidates broken_env ''Firefox'' ''firefox'' empty_state)))) = 2"
  by code_simp

section \<open>Exceptions in the run\<close>

lemma fault_abortsI:
  assumes "\<And>st. requested (snd (m st)) = requested st"
  shows "fault_aborts env m"
  unfolding fault_aborts_def
proof
  fix st
  have "requested (snd (m st)) = requested st @ [] \<and>
        (list_ex (unanswered env) [] \<longrightarrow>
           fst (m st) = Inl ConnectionFault \<and> unanswered env (last []))"
    using assms by simp
  then show "\<exists>news. requested (snd (m st)) = requested st @ news \<and>
        (list_ex (unanswered env) news \<longrightarrow>
           fst (m st) = Inl ConnectionFault \<and> unanswered env (last news))" ..
qed

lemma fault_aborts_ret: "fault_aborts env (ret x)"
  by (rule fault_abortsI) (simp add: ret_def)

lemma fault_aborts_raise: "fault_aborts env (raise e)"
  by (rule fault_abortsI) (simp add: raise_def)

lemma fault_aborts_log_msg: "fault_aborts env (log_msg e)"
  by (rule fault_abortsI) (simp add: log_msg_def)

lemma fault_aborts_insert_build: "fault_aborts env (insert_build env row)"
  by (rule fault_abortsI)
     (simp add: insert_build_def bind_def ret_def log_msg_def split: db_outcome.splits)

lemma fault_aborts_get_max_major_version: "fault_aborts env (get_max_major_version name)"
  by (rule fault_abortsI) (simp add: get_max_major_version_def)

lemma fault_aborts_download: "fault_aborts env (download env p)"
  unfolding fault_aborts_def
proof
  fix st
  let ?url = "urljoin env (base_url env) p"
  have "requested (snd (download env p st)) = requested st @ [?url]"
    using yields_download [of env p] by (simp add: yields_def)
  moreover have "fst (download env p st) = Inl ConnectionFault" if "unanswered env ?url"
    using that by (simp add: fst_download fetch_def unanswered_def)
  ultimately have "requested (snd (download env p st)) = requested st @ [?url] \<and>
        (list_ex (unanswered env) [?url] \<longrightarrow>
           fst (download env p st) = Inl ConnectionFault \<and> unanswered env (last [?url]))"
    by simp
  then show "\<exists>news. requested (snd (download env p st)) = requested st @ news \<and>
        (list_ex (unanswered env) news \<longrightarrow>
           fst (download env p st) = Inl ConnectionFault \<and> unanswered env (last news))" ..
qed

lemma fault_aborts_bind:
  assumes m: "fault_aborts env m" and f: "\<And>x. fault_aborts env (f x)"
  shows "fault_aborts env (bind m f)"
  unfolding fault_aborts_def
proof
  fix st
  obtain r st1 where ms: "m st = (r, st1)" by (cases "m st")
  obtain news where n: "requested st1 = requested st @ news"
    "list_ex (unanswered env) news \<Longrightarrow> r = Inl ConnectionFault \<and> unanswered env (last news)"
    using m ms unfolding fault_aborts_def by (metis fst_conv snd_conv)
  show "\<exists>news. requested (snd (bind m f st)) = requested st @ news \<and>
        (list_ex (unanswered env) news \<longrightarrow>
           fst (bind m f st) = Inl ConnectionFault \<and> unanswered env (last news))"
  proof (cases r)
    case (Inl e)
    then have "bind m f st = (Inl e, st1)" using ms by (simp add: bind_def)
    then have "requested (snd (bind m f st)) = requested st @ news \<and>
        (list_ex (unanswered env) news \<longrightarrow>
           fst (bind m f st) = Inl ConnectionFault \<and> unanswered env (last news))"
      using n Inl by auto
    then show ?thesis ..
  next
    case (Inr x)
    then have b: "bind m f st = f x st1" using ms by (simp add: bind_def)
    obtain news' where n': "requested (snd (f x st1)) = requested st1 @ news'"
      "list_ex (unanswered env) news' \<Longrightarrow>
         fst (f x st1) = Inl ConnectionFault \<and> unanswered env (last news')"
      using f [of x] unfolding fault_aborts_def by blast
    have no: "\<not> list_ex (unanswered env) news" using n(2) Inr by auto
    have "requested (snd (bind m f st)) = requested st @ (news @ news') \<and>
        (list_ex (unanswered env) (news @ news') \<longrightarrow>
           fst (bind m f st) = Inl ConnectionFault \<and> unanswered env (last (news @ news')))"
    proof (intro conjI impI)
      show "requested (snd (bind m f st)) = requested st @ (news @ news')"
        using b n(1) n'(1) by simp
    next
      assume "list_ex (unanswered env) (news @ news')"
      then have l: "list_ex (unanswered env) news'" using no by (auto simp: list_ex_iff)
      then have "news' \<noteq> []" by auto
      then show "fst (bind m f st) = Inl ConnectionFault"
        and "unanswered env (last (news @ news'))"
        using n'(2) [OF l] b by simp_all
    qed
    then show ?thesis ..
  qed
qed

lemma fault_aborts_foreach:
  assumes "\<And>x. fault_aborts env (body x)"
  shows "fault_aborts env (foreach xs body)"
proof (induction xs)
  case Nil
  show ?case unfolding foreach.simps by (rule fault_aborts_ret)
next
  case (Cons x xs)
  show ?case unfolding foreach.simps by (rule fault_aborts_bind) (rule assms, rule Cons.IH)
qed

lemma fault_aborts_collect:
  assumes "\<And>x. fault_aborts env (body x)"
  shows "fault_aborts env (collect xs body)"
proof (induction xs)
  case Nil
  show ?case unfolding collect.simps by (rule fault_aborts_ret)
next
  case (Cons x xs)
  show ?case
    unfolding collect.simps
    by (intro fault_aborts_bind assms Cons.IH fault_aborts_ret)
qed

lemma fault_aborts_if:
  "(c \<Longrightarrow> fault_aborts env a) \<Longrightarrow> (\<not> c \<Longrightarrow> fault_aborts env b) \<Longrightarrow>
   fault_aborts env (if c then a else b)"
  by simp

lemmas fault_aborts_intros = fault_aborts_ret fault_aborts_raise fault_aborts_log_msg
  fault_aborts_download fault_aborts_insert_build fault_aborts_bind fault_aborts_foreach
  fault_aborts_collect fault_aborts_if

lemma fault_aborts_get_json_links: "fault_aborts env (get_json_links env path)"
proof -
  have "fault_aborts env (platform_json_links env d)" for d
    unfolding platform_json_links_def by (intro fault_aborts_intros)
  then show ?thesis
    unfolding get_json_links_def Let_def by (intro fault_aborts_intros)
qed

lemma fault_aborts_scrape_json_link:
  "fault_aborts env (scrape_json_link env name version_root is_final n i bl json_link)"
  unfolding scrape_json_link_def Let_def
proof (intro fault_aborts_bind fault_aborts_download)
  fix json_file
  have "fault_aborts env (insert_rows env data version_root rc fb)" for data rc fb
    unfolding insert_rows_def Let_def by (intro fault_aborts_intros)
  then show "fault_aborts env
     (case json_loads env json_file of
        None \<Rightarrow> raise ValueError
      | Some parsed \<Rightarrow>
          (case read_build_data env name json_link parsed of
             Inl e \<Rightarrow> raise e
           | Inr data \<Rightarrow>
               insert_rows env data version_root
                 (version_root @ ''rc'' @ butlast (drop 5 (link_text bl)))
                 (i + 1 = n \<and> is_final)))"
    by (simp add: fault_aborts_raise split: option.splits sum.splits)
qed

lemma fault_aborts_scrape_build:
  "fault_aborts env (scrape_build env name version_root is_final n ib)"
proof (cases ib)
  case (Pair i bl)
  show ?thesis
    unfolding scrape_build_def Pair prod.case
    by (intro fault_aborts_intros fault_aborts_get_json_links fault_aborts_scrape_json_link)
qed

lemma fault_aborts_scrape_version:
  "fault_aborts env (scrape_version env name final_releases l)"
  unfolding scrape_version_def Let_def
proof (intro fault_aborts_bind fault_aborts_download)
  fix page
  show "fault_aborts env
     (case index (split (link_path l) CHR ''/'') 4 of
        None \<Rightarrow> raise IndexError
      | Some segment \<Rightarrow>
          (case sort_build_links
                  (filter (\<lambda>b. startswith (link_text b) ''build'') (get_links env page)) of
             Inl e \<Rightarrow> raise e
           | Inr sorted_links \<Rightarrow>
               foreach (enumerate 0 sorted_links)
                 (scrape_build env name (replace segment ''-candidates'' [])
                    (replace segment ''-candidates'' [] \<in> set final_releases)
                    (length sorted_links))))"
    by (simp add: fault_aborts_raise fault_aborts_foreach fault_aborts_scrape_build
          split: option.splits sum.splits)
qed

lemma fault_aborts_scrape_candidates:
  "fault_aborts env (scrape_candidates env name dir)"
proof -
  have "fault_aborts env (filter_versions w vl)" for w vl
    by (rule fault_abortsI)
       (simp add: filter_versions_def ret_def raise_def bind_def log_msg_def
          split: option.splits sum.splits)
  then have "fault_aborts env (walk_candidates env name dir w)" for w
    unfolding walk_candidates_eq
    by (intro fault_aborts_bind fault_aborts_download fault_aborts_foreach
          fault_aborts_scrape_version)
  then show ?thesis
    unfolding scrape_candidates_def
    by (intro fault_aborts_bind fault_aborts_get_max_major_version)
qed

lemma walk_faults_raises:
  assumes "walk_faults env name dir st"
  shows "fst (scrape_candidates env name dir st) = Inl ConnectionFault \<and>
         unanswered env (last (requested (snd (scrape_candidates env name dir st))))"
proof -
  obtain news where n: "requested (snd (scrape_candidates env name dir st)) = requested st @ news"
    "list_ex (unanswered env) news \<longrightarrow>
       fst (scrape_candidates env name dir st) = Inl ConnectionFault \<and>
       unanswered env (last news)"
    using fault_aborts_scrape_candidates [of env name dir] unfolding fault_aborts_def by blast
  have l: "list_ex (unanswered env) news" using assms n(1) by (simp add: walk_faults_def)
  then have "news \<noteq> []" by auto
  then show ?thesis using n l by simp
qed

text \<open>
  C6 (amended). A connection fault at any request of a product's walk makes the walk
  raise it, the unanswered request being the last one sent; and an exception raised by
  the walk of Firefox, DevEdition or Fennec ends the run with that exception in the
  state the walk had reached: the products after it are not walked.
\<close>

theorem fault_aborts_walk_and_run:
  "(walk_faults env name dir st \<longrightarrow>
      fst (scrape_candidates env name dir st) = Inl ConnectionFault \<and>
      unanswered env (last (requested (snd (scrape_candidates env name dir st))))) \<and>
   (walk_faults env ''Firefox'' ''firefox'' st \<longrightarrow>
      run env st = (Inl ConnectionFault, snd (scrape_candidates env ''Firefox'' ''firefox'' st))) \<and>
   (scrape_candidates env ''Firefox'' ''firefox'' st = (Inr (), st1) \<and>
    walk_faults env ''DevEdition'' ''devedition'' st1 \<longrightarrow>
      run env st =
        (Inl ConnectionFault, snd (scrape_candidates env ''DevEdition'' ''devedition'' st1))) \<and>
   (scrape_candidates env ''Firefox'' ''firefox'' st = (Inr (), st1) \<and>
    scrape_candidates env ''DevEdition'' ''devedition'' st1 = (Inr (), st2) \<and>
    walk_faults env ''Fennec'' ''mobile'' st2 \<longrightarrow>
      run env st = (Inl ConnectionFault, snd (scrape_candidates env ''Fennec'' ''mobile'' st2))) \<and>
   (fst (scrape_candidates env ''Firefox'' ''firefox'' st) = Inl e \<longrightarrow>
      run env st = (Inl e, snd (scrape_candidates env ''Firefox'' ''firefox'' st))) \<and>
   (scrape_candidates env ''Firefox'' ''firefox'' st = (Inr (), st1) \<and>
    fst (scrape_candidates env ''DevEdition'' ''devedition'' st1) = Inl e \<longrightarrow>
      run env st = (Inl e, snd (scrape_candidates env ''DevEdition'' ''devedition'' st1))) \<and>
   (scrape_candidates env ''Firefox'' ''firefox'' st = (Inr (), st1) \<and>
    scrape_candidates env ''DevEdition'' ''devedition'' st1 = (Inr (), st2) \<and>
    fst (scrape_candidates env ''Fennec'' ''mobile'' st2) = Inl e \<longrightarrow>
      run env st = (Inl e, snd (scrape_candidates env ''Fennec'' ''mobile'' st2)))"
proof -
  have a: "run env st = (Inl e, snd (scrape_candidates env ''Firefox'' ''firefox'' st))"
    if "fst (scrape_candidates env ''Firefox'' ''firefox'' st) = Inl e" for e
    using that by (cases "scrape_candidates env ''Firefox'' ''firefox'' st")
      (simp add: run_def bind_def)
  have b: "run env st = (Inl e, snd (scrape_candidates env ''DevEdition'' ''devedition'' st1))"
    if "scrape_candidates env ''Firefox'' ''firefox'' st = (Inr (), st1)"
      and "fst (scrape_candidates env ''DevEdition'' ''devedition'' st1) = Inl e" for e
    using that by (cases "scrape_candidates env ''DevEdition'' ''devedition'' st1")
      (simp add: run_def bind_def)
  have c: "run env st = (Inl e, snd (scrape_candidates env ''Fennec'' ''mobile'' st2))"
    if "scrape_candidates env ''Firefox'' ''firefox'' st = (Inr (), st1)"
      and "scrape_candidates env ''DevEdition'' ''devedition'' st1 = (Inr (), st2)"
      and "fst (scrape_candidates env ''Fennec'' ''mobile'' st2) = Inl e" for e
    using that by (cases "scrape_candidates env ''Fennec'' ''mobile'' st2")
      (simp add: run_def bind_def)
  note w = walk_faults_raises
  show ?thesis
    using a b c w [of env name dir st] w [of env "''Firefox''" "''firefox''" st]
      w [of env "''DevEdition''" "''devedition''" st1] w [of env "''Fennec''" "''mobile''" st2]
    by blast
qed

theorem fault_aborts_walk_and_run_witness:
  "walk_faults down_env3 ''Firefox'' ''firefox'' empty_state \<and>
   last (requested (snd (scrape_candidates down_env3 ''Firefox'' ''firefox'' empty_state)))
     = ''https://archive.mozilla.org'' @ build1 @ ''win32/en-US/'' \<and>
   run down_env3 empty_state =
     (Inl ConnectionFault, snd (scrape_candidates down_env3 ''Firefox'' ''firefox'' empty_state)) \<and>
   walk_faults down_env2 ''DevEdition'' ''devedition''
     (snd (scrape_candidates down_env2 ''Firefox'' ''firefox'' empty_state)) \<and>
   run down_env2 empty_state =
     (Inl ConnectionFault,
      snd (scrape_candidates down_env2 ''DevEdition'' ''devedition''
             (snd (scrape_candidates down_env2 ''Firefox'' ''firefox'' empty_state)))) \<and>
   walk_faults down_env4 ''Fennec'' ''mobile''
     (snd (scrape_candidates down_env4 ''DevEdition'' ''devedition''
        (snd (scrape_candidates down_env4 ''Firefox'' ''firefox'' empty_state)))) \<and>
   run down_env4 empty_state =
     (Inl ConnectionFault,
      snd (scrape_candidates down_env4 ''Fennec'' ''mobile''
        (snd (scrape_candidates down_env4 ''DevEdition'' ''devedition''
           (snd (scrape_candidates down_env4 ''Firefox'' ''firefox'' empty_state))))))"
proof -
  let ?f3 = "scrape_candidates down_env3 ''Firefox'' ''firefox'' empty_state"
  let ?f2 = "scrape_candidates down_env2 ''Firefox'' ''firefox'' empty_state"
  let ?f4 = "scrape_candidates down_env4 ''Firefox'' ''firefox'' empty_state"
  let ?d4 = "scrape_candidates down_env4 ''DevEdition'' ''devedition'' (snd ?f4)"
  have w3: "walk_faults down_env3 ''Firefox'' ''firefox'' empty_state"
    unfolding walk_faults_def unanswered_def by code_simp
  have l3: "last (requested (snd ?f3)) = ''https://archive.mozilla.org'' @ build1 @ ''win32/en-US/''"
    by code_simp
  have f2: "fst ?f2 = Inr ()" by code_simp
  then have f2': "?f2 = (Inr (), snd ?f2)" by (cases ?f2) simp
  have w2: "walk_faults down_env2 ''DevEdition'' ''devedition'' (snd ?f2)"
    unfolding walk_faults_def unanswered_def by code_simp
  have f4: "fst ?f4 = Inr ()" by code_simp
  then have f4': "?f4 = (Inr (), snd ?f4)" by (cases ?f4) simp
  have d4: "fst ?d4 = Inr ()" by code_simp
  then have d4': "?d4 = (Inr (), snd ?d4)" by (cases ?d4) simp
  have w4: "walk_faults down_env4 ''Fennec'' ''mobile'' (snd ?d4)"
    unfolding walk_faults_def unanswered_def by code_simp
  note t3 = fault_aborts_walk_and_run
    [of down_env3 "''Firefox''" "''firefox''" empty_state empty_state empty_state]
  note t2 = fault_aborts_walk_and_run
    [of down_env2 "''Firefox''" "''firefox''" empty_state "snd ?f2" empty_state]
  note t4 = fault_aborts_walk_and_run
    [of down_env4 "''Firefox''" "''firefox''" empty_state "snd ?f4" "snd ?d4"]
  have r3: "run down_env3 empty_state = (Inl ConnectionFault, snd ?f3)"
    using t3 w3 by blast
  have r2: "run down_env2 empty_state =
      (Inl ConnectionFault,
       snd (scrape_candidates down_env2 ''DevEdition'' ''devedition'' (snd ?f2)))"
    using t2 f2' w2 by blast
  have r4: "run down_env4 empty_state =
      (Inl ConnectionFault, snd (scrape_candidates down_env4 ''Fennec'' ''mobile'' (snd ?d4)))"
    using t4 f4' d4' w4 by blast
  show ?thesis
    using w3 l3 r3 w2 r2 w4 r4 by blast
qed

text \<open>
  The session raises at the Firefox candidates listing: the run ends with the fault
  after two requests, none of them for DevEdition or Fennec.
\<close>

theorem run_aborted_by_fault_counterexample:
  "fst (run down_env empty_state) = Inl ConnectionFault \<and>
   requested (snd (run down_env empty_state)) =
     [''https://archive.mozilla.org/pub/firefox/releases/'',
      ''https://archive.mozilla.org/pub/firefox/candidates/'']"
  by code_simp

end
